theory Spec2Isabelle
  imports Main
begin

section \<open>The flight-delay insurance ledger\<close>

text \<open>
  The repository holds two versions of the Solidity contract \<open>FlightInsurance\<close>:
  \<^item> \<open>src/contracts/FlightInsurance.sol\<close>, here with the suffix \<open>_v1\<close>: registration needs an
    active, unexpired subscription; every \<open>subscribe\<close> pushes onto \<open>allSubscribers\<close>; the
    payout scan walks \<open>allSubscribers\<close> and tests expiry by time only;
  \<^item> \<open>src/unnamed/part_002\<close>, here with the suffix \<open>_v2\<close>: it adds the \<open>notOracle\<close> modifier,
    the list \<open>allUsersWithFlights\<close> (pushed only when absent), the positive-deposit check, and
    the payout scan walks \<open>allUsersWithFlights\<close> and tests the stored flag and the time.

  Modelling decisions, all of them the semantics of Solidity 0.8 on the EVM:
  \<^item> \<open>uint256\<close> values are natural numbers; \<open>+\<close> is checked, so a sum that reaches \<open>2 ^ 256\<close>
    reverts the call (\<open>Overflow\<close>);
  \<^item> a failed \<open>require\<close>, a failed \<open>transfer\<close> and an overflow revert the whole call: an
    operation returns \<open>Inl\<close> the error and no state, or \<open>Inr\<close> the state it commits;
  \<^item> \<open>msg.sender\<close>, \<open>msg.value\<close> and \<open>block.timestamp\<close> are arguments of the operations;
  \<^item> a \<open>mapping\<close> is a total function, every key starting at the zero value of its type;
  \<^item> \<open>keccak256(bytes(a)) == keccak256(bytes(b))\<close> is the equality of the two strings (the hash
    is taken as collision free);
  \<^item> \<open>address(this).balance\<close> is the field \<open>balance\<close>; the ether that leaves the contract is
    appended to the trace \<open>sent\<close>, one entry (recipient, amount) for each \<open>transfer\<close>;
  \<^item> a \<open>transfer\<close> reverts when the contract holds less than the amount, and also when the
    recipient is a contract that does not take the ether within the 2300 gas that \<open>transfer\<close>
    forwards. Which accounts do so is not up to the ledger: it is an argument \<open>refuses\<close> of
    \<open>updateFlightStatus\<close>, as the timestamp is. The stipend lets no recipient call back.
  The require strings of the source are mapped onto the error kinds of the specification.
\<close>

subsection \<open>Constants\<close>

type_synonym address = nat

definition PREMIUM :: nat where
  "PREMIUM = 100000000000000000"  \<comment> \<open>0.1 ether, in wei\<close>

definition PAYOUT :: nat where
  "PAYOUT = 1000000000000000000"  \<comment> \<open>1 ether\<close>

definition DELAY_THRESHOLD :: nat where
  "DELAY_THRESHOLD = 7200"  \<comment> \<open>2 hours, in seconds\<close>

definition SUBSCRIPTION_DURATION :: nat where
  "SUBSCRIPTION_DURATION = 2592000"  \<comment> \<open>30 days\<close>

definition UINT256_LIMIT :: nat where
  "UINT256_LIMIT = 2 ^ 256"

subsection \<open>Data\<close>

record Policy =
  flightID :: string
  flightTimestamp :: nat
  hasPaidOut :: bool

record Subscription =
  isActive :: bool
  startTime :: nat
  policies :: "Policy list"

text \<open>
  The contract's storage. \<open>owner\<close> is the administrator (\<open>insurer\<close> in
  \<open>src/contracts/FlightInsurance.sol\<close>, \<open>owner\<close> in \<open>src/unnamed/part_002\<close>);
  \<open>allUsersWithFlights\<close> exists in \<open>part_002\<close> only and stays empty in the other version.
\<close>

record ledger =
  owner :: address
  oracleAddr :: address  \<comment> \<open>the state variable \<open>oracle\<close> (a reserved word of Isabelle)\<close>
  subscriptions :: "address \<Rightarrow> Subscription"
  flightDelays :: "string \<Rightarrow> bool"
  allSubscribers :: "address list"
  allUsersWithFlights :: "address list"
  balance :: nat
  sent :: "(address \<times> nat) list"

datatype error =
    Unauthorized           \<comment> \<open>"Only insurer/owner/oracle can call this function", "Oracle cannot perform this action"\<close>
  | InvalidAddress         \<comment> \<open>"Invalid oracle address"\<close>
  | InvalidAmount          \<comment> \<open>"Must deposit some ETH"\<close>
  | WrongPremium           \<comment> \<open>"Premium must be 0.1 ETH"\<close>
  | AlreadySubscribed      \<comment> \<open>"Already subscribed"\<close>
  | NoActiveSubscription   \<comment> \<open>"No active subscription"\<close>
  | SubscriptionExpired    \<comment> \<open>"Subscription expired"\<close>
  | DuplicateFlight        \<comment> \<open>"Flight already registered"\<close>
  | InsufficientPool       \<comment> \<open>\<open>transfer\<close> with less than the amount in the contract\<close>
  | TransferFailed         \<comment> \<open>\<open>transfer\<close> to a recipient that does not take the ether\<close>
  | Overflow               \<comment> \<open>checked \<open>uint256\<close> addition\<close>
  | NotPayable             \<comment> \<open>ether sent to a function that is not \<open>payable\<close>\<close>

definition emptySubscription :: Subscription where
  "emptySubscription = \<lparr>isActive = False, startTime = 0, policies = []\<rparr>"

subsection \<open>Shared pieces\<close>

text \<open>\<open>a + b\<close> on \<open>uint256\<close> does not fit: Solidity 0.8 reverts.\<close>

definition overflows :: "nat \<Rightarrow> nat \<Rightarrow> bool" where
  "overflows a b = (UINT256_LIMIT \<le> a + b)"

text \<open>
  The loop \<open>for (i ...) if (list[i] == msg.sender) { userExists = true; break; }\<close>.
\<close>

fun userExists :: "address list \<Rightarrow> address \<Rightarrow> bool" where
  "userExists [] a = False"
| "userExists (x # xs) a = (if x = a then True else userExists xs a)"

definition pushIfAbsent :: "address list \<Rightarrow> address \<Rightarrow> address list" where
  "pushIfAbsent xs a = (if \<not> userExists xs a then xs @ [a] else xs)"

text \<open>
  The loop of \<open>registerFlight\<close> that requires every stored flight id to differ from the new
  one: \<open>True\<close> when some \<open>require\<close> of the loop fails.
\<close>

fun flightRegistered :: "Policy list \<Rightarrow> string \<Rightarrow> bool" where
  "flightRegistered [] fid = False"
| "flightRegistered (p # ps) fid = (if flightID p = fid then True else flightRegistered ps fid)"

definition newPolicy :: "string \<Rightarrow> nat \<Rightarrow> Policy" where
  "newPolicy fid ts = \<lparr>flightID = fid, flightTimestamp = ts, hasPaidOut = False\<rparr>"

text \<open>
  \<open>payable(user).transfer(amount)\<close> on the pair (contract balance, trace of transfers). The
  call needs the balance first; then the recipient runs, and \<open>refuses user\<close> says that it
  does not take the ether.
\<close>

type_synonym pool = "nat \<times> (address \<times> nat) list"

definition transfer :: "(address \<Rightarrow> bool) \<Rightarrow> address \<Rightarrow> nat \<Rightarrow> pool \<Rightarrow> error + pool" where
  "transfer refuses user amount pl =
     (if fst pl < amount then Inl InsufficientPool
      else if refuses user then Inl TransferFailed
      else Inr (fst pl - amount, snd pl @ [(user, amount)]))"

text \<open>
  The inner loop \<open>for (j ...)\<close> of \<open>updateFlightStatus\<close>: each round reads and writes the
  policy \<open>j\<close> and the pool only, so the loop is a left-to-right pass with the step as argument.
\<close>

fun scanPolicies ::
  "(Policy \<Rightarrow> pool \<Rightarrow> error + Policy \<times> pool) \<Rightarrow> Policy list \<Rightarrow> pool \<Rightarrow> error + Policy list \<times> pool" where
  "scanPolicies step [] pl = Inr ([], pl)"
| "scanPolicies step (p # ps) pl =
     (case step p pl of
        Inl e \<Rightarrow> Inl e
      | Inr (p', pl') \<Rightarrow>
          (case scanPolicies step ps pl' of
             Inl e \<Rightarrow> Inl e
           | Inr (ps', pl'') \<Rightarrow> Inr (p' # ps', pl'')))"

text \<open>\<open>policy.hasPaidOut = true; payable(user).transfer(PAYOUT);\<close>\<close>

definition payOut ::
  "(address \<Rightarrow> bool) \<Rightarrow> address \<Rightarrow> Policy \<Rightarrow> pool \<Rightarrow> error + Policy \<times> pool" where
  "payOut refuses user p pl =
     (case transfer refuses user PAYOUT pl of
        Inl e \<Rightarrow> Inl e
      | Inr pl' \<Rightarrow> Inr (p\<lparr>hasPaidOut := True\<rparr>, pl'))"

subsection \<open>\<open>src/contracts/FlightInsurance.sol\<close>\<close>

definition constructor_v1 :: "address \<Rightarrow> ledger" where
  "constructor_v1 sender =
     \<lparr>owner = sender, oracleAddr = sender, subscriptions = (\<lambda>_. emptySubscription),
      flightDelays = (\<lambda>_. False), allSubscribers = [], allUsersWithFlights = [],
      balance = 0, sent = []\<rparr>"

definition setOracle_v1 :: "address \<Rightarrow> address \<Rightarrow> ledger \<Rightarrow> error + ledger" where
  "setOracle_v1 sender new_oracle s =
     (if sender \<noteq> owner s then Inl Unauthorized
      else if new_oracle = 0 then Inl InvalidAddress
      else Inr (s\<lparr>oracleAddr := new_oracle\<rparr>))"

definition depositFunds_v1 :: "address \<Rightarrow> nat \<Rightarrow> ledger \<Rightarrow> error + ledger" where
  "depositFunds_v1 sender amount s =
     (if sender \<noteq> owner s then Inl Unauthorized
      else Inr (s\<lparr>balance := balance s + amount\<rparr>))"

definition subscribe_v1 :: "address \<Rightarrow> nat \<Rightarrow> nat \<Rightarrow> ledger \<Rightarrow> error + ledger" where
  "subscribe_v1 sender payment now s =
     (if payment \<noteq> PREMIUM then Inl WrongPremium
      else if isActive (subscriptions s sender) then Inl AlreadySubscribed
      else Inr (s\<lparr>subscriptions := (subscriptions s)
                     (sender := (subscriptions s sender)\<lparr>isActive := True, startTime := now\<rparr>),
                  allSubscribers := allSubscribers s @ [sender],
                  balance := balance s + payment\<rparr>))"

definition registerFlight_v1 :: "address \<Rightarrow> string \<Rightarrow> nat \<Rightarrow> nat \<Rightarrow> ledger \<Rightarrow> error + ledger" where
  "registerFlight_v1 sender fid ts now s =
     (let sub = subscriptions s sender in
      if \<not> isActive sub then Inl NoActiveSubscription
      else if overflows (startTime sub) SUBSCRIPTION_DURATION then Inl Overflow
      else if \<not> now < startTime sub + SUBSCRIPTION_DURATION then Inl SubscriptionExpired
      else if flightRegistered (policies sub) fid then Inl DuplicateFlight
      else Inr (s\<lparr>subscriptions := (subscriptions s)
                     (sender := sub\<lparr>policies := policies sub @ [newPolicy fid ts]\<rparr>)\<rparr>))"

text \<open>
  The body of the inner loop: the three conditions are joined by \<open>&&\<close>, so the addition
  \<open>flightTimestamp + DELAY_THRESHOLD\<close> is evaluated only for a matching, unpaid policy.
\<close>

definition policyStep_v1 ::
  "(address \<Rightarrow> bool) \<Rightarrow> address \<Rightarrow> string \<Rightarrow> nat \<Rightarrow> Policy \<Rightarrow> pool \<Rightarrow> error + Policy \<times> pool" where
  "policyStep_v1 refuses user fid now p pl =
     (if flightID p = fid \<and> \<not> hasPaidOut p then
        (if overflows (flightTimestamp p) DELAY_THRESHOLD then Inl Overflow
         else if flightTimestamp p + DELAY_THRESHOLD \<le> now then payOut refuses user p pl
         else Inr (p, pl))
      else Inr (p, pl))"

text \<open>The outer loop over \<open>allSubscribers\<close>; \<open>continue\<close> skips the policies of an expired subscriber.\<close>

fun scanSubscribers_v1 ::
  "(address \<Rightarrow> bool) \<Rightarrow> string \<Rightarrow> nat \<Rightarrow> address list \<Rightarrow> ledger \<Rightarrow> error + ledger" where
  "scanSubscribers_v1 refuses fid now [] s = Inr s"
| "scanSubscribers_v1 refuses fid now (u # us) s =
     (let sub = subscriptions s u in
      if overflows (startTime sub) SUBSCRIPTION_DURATION then Inl Overflow
      else if startTime sub + SUBSCRIPTION_DURATION \<le> now then
        scanSubscribers_v1 refuses fid now us
          (s\<lparr>subscriptions := (subscriptions s)(u := sub\<lparr>isActive := False\<rparr>)\<rparr>)
      else
        (case scanPolicies (policyStep_v1 refuses u fid now) (policies sub) (balance s, sent s) of
           Inl e \<Rightarrow> Inl e
         | Inr (ps', pl') \<Rightarrow>
             scanSubscribers_v1 refuses fid now us
               (s\<lparr>subscriptions := (subscriptions s)(u := sub\<lparr>policies := ps'\<rparr>),
                  balance := fst pl', sent := snd pl'\<rparr>)))"

definition updateFlightStatus_v1 ::
  "(address \<Rightarrow> bool) \<Rightarrow> address \<Rightarrow> string \<Rightarrow> bool \<Rightarrow> nat \<Rightarrow> ledger \<Rightarrow> error + ledger" where
  "updateFlightStatus_v1 refuses sender fid delayed now s =
     (if sender \<noteq> oracleAddr s then Inl Unauthorized
      else
        (let s1 = s\<lparr>flightDelays := (flightDelays s)(fid := delayed)\<rparr> in
         if delayed then scanSubscribers_v1 refuses fid now (allSubscribers s1) s1 else Inr s1))"

definition getContractBalance :: "ledger \<Rightarrow> nat" where
  "getContractBalance s = balance s"

text \<open>
  \<open>isSubscribed\<close> is the same in both versions; \<open>&&\<close> evaluates the addition only when the
  stored flag is set.
\<close>

definition isSubscribed :: "address \<Rightarrow> nat \<Rightarrow> ledger \<Rightarrow> error + bool" where
  "isSubscribed user now s =
     (let sub = subscriptions s user in
      if \<not> isActive sub then Inr False
      else if overflows (startTime sub) SUBSCRIPTION_DURATION then Inl Overflow
      else Inr (now < startTime sub + SUBSCRIPTION_DURATION))"

subsection \<open>\<open>src/unnamed/part_002\<close>\<close>

text \<open>The constructor sets \<open>owner\<close> only: \<open>oracle\<close> starts as the zero address.\<close>

definition constructor_v2 :: "address \<Rightarrow> ledger" where
  "constructor_v2 sender =
     \<lparr>owner = sender, oracleAddr = 0, subscriptions = (\<lambda>_. emptySubscription),
      flightDelays = (\<lambda>_. False), allSubscribers = [], allUsersWithFlights = [],
      balance = 0, sent = []\<rparr>"

definition setOracle_v2 :: "address \<Rightarrow> address \<Rightarrow> ledger \<Rightarrow> error + ledger" where
  "setOracle_v2 sender new_oracle s =
     (if sender \<noteq> owner s then Inl Unauthorized
      else Inr (s\<lparr>oracleAddr := new_oracle\<rparr>))"

definition depositFunds_v2 :: "address \<Rightarrow> nat \<Rightarrow> ledger \<Rightarrow> error + ledger" where
  "depositFunds_v2 sender amount s =
     (if sender \<noteq> owner s then Inl Unauthorized
      else if \<not> 0 < amount then Inl InvalidAmount
      else Inr (s\<lparr>balance := balance s + amount\<rparr>))"

definition subscribe_v2 :: "address \<Rightarrow> nat \<Rightarrow> nat \<Rightarrow> ledger \<Rightarrow> error + ledger" where
  "subscribe_v2 sender payment now s =
     (if payment \<noteq> PREMIUM then Inl WrongPremium
      else if isActive (subscriptions s sender) then Inl AlreadySubscribed
      else Inr (s\<lparr>subscriptions := (subscriptions s)
                     (sender := (subscriptions s sender)\<lparr>isActive := True, startTime := now\<rparr>),
                  allSubscribers := pushIfAbsent (allSubscribers s) sender,
                  allUsersWithFlights := pushIfAbsent (allUsersWithFlights s) sender,
                  balance := balance s + payment\<rparr>))"

definition registerFlight_v2 :: "address \<Rightarrow> string \<Rightarrow> nat \<Rightarrow> ledger \<Rightarrow> error + ledger" where
  "registerFlight_v2 sender fid ts s =
     (let sub = subscriptions s sender in
      if \<not> sender \<noteq> oracleAddr s then Inl Unauthorized
      else if flightRegistered (policies sub) fid then Inl DuplicateFlight
      else Inr (s\<lparr>subscriptions := (subscriptions s)
                     (sender := sub\<lparr>policies := policies sub @ [newPolicy fid ts]\<rparr>),
                  allUsersWithFlights := pushIfAbsent (allUsersWithFlights s) sender\<rparr>))"

text \<open>
  The body of the inner loop. \<open>meetsDelay\<close> is computed for every policy, before the flight
  id is compared, so its addition is checked for every policy; the event \<open>DebugTimestamps\<close>
  changes no state and is left out. \<open>active\<close> is the local \<open>isActive\<close> of the outer loop.
\<close>

definition policyStep_v2 ::
  "(address \<Rightarrow> bool) \<Rightarrow> bool \<Rightarrow> address \<Rightarrow> string \<Rightarrow> nat \<Rightarrow> Policy \<Rightarrow> pool \<Rightarrow> error + Policy \<times> pool" where
  "policyStep_v2 refuses active user fid now p pl =
     (if overflows (flightTimestamp p) DELAY_THRESHOLD then Inl Overflow
      else
        (let meetsDelay = (flightTimestamp p + DELAY_THRESHOLD \<le> now) in
         if flightID p = fid \<and> \<not> hasPaidOut p \<and> meetsDelay then
           (if active then payOut refuses user p pl else Inr (p, pl))
         else Inr (p, pl)))"

text \<open>
  The outer loop over \<open>allUsersWithFlights\<close>. The local \<open>isActive\<close> is
  \<open>sub.isActive && (block.timestamp < sub.startTime + SUBSCRIPTION_DURATION)\<close>: the addition
  is evaluated only when the stored flag is set.
\<close>

fun scanUsers_v2 ::
  "(address \<Rightarrow> bool) \<Rightarrow> string \<Rightarrow> nat \<Rightarrow> address list \<Rightarrow> ledger \<Rightarrow> error + ledger" where
  "scanUsers_v2 refuses fid now [] s = Inr s"
| "scanUsers_v2 refuses fid now (u # us) s =
     (let sub = subscriptions s u in
      if isActive sub \<and> overflows (startTime sub) SUBSCRIPTION_DURATION then Inl Overflow
      else
        (let active = (isActive sub \<and> now < startTime sub + SUBSCRIPTION_DURATION);
             sub1 = (if isActive sub \<and> \<not> active then sub\<lparr>isActive := False\<rparr> else sub)
         in case scanPolicies (policyStep_v2 refuses active u fid now) (policies sub1) (balance s, sent s) of
              Inl e \<Rightarrow> Inl e
            | Inr (ps', pl') \<Rightarrow>
                scanUsers_v2 refuses fid now us
                  (s\<lparr>subscriptions := (subscriptions s)(u := sub1\<lparr>policies := ps'\<rparr>),
                     balance := fst pl', sent := snd pl'\<rparr>)))"

definition updateFlightStatus_v2 ::
  "(address \<Rightarrow> bool) \<Rightarrow> address \<Rightarrow> string \<Rightarrow> bool \<Rightarrow> nat \<Rightarrow> ledger \<Rightarrow> error + ledger" where
  "updateFlightStatus_v2 refuses sender fid delayed now s =
     (if sender \<noteq> oracleAddr s then Inl Unauthorized
      else
        (let s1 = s\<lparr>flightDelays := (flightDelays s)(fid := delayed)\<rparr> in
         if delayed then scanUsers_v2 refuses fid now (allUsersWithFlights s1) s1 else Inr s1))"

definition getPolicyCount :: "address \<Rightarrow> ledger \<Rightarrow> nat" where
  "getPolicyCount user s = length (policies (subscriptions s user))"

definition getUserPolicies :: "address \<Rightarrow> ledger \<Rightarrow> string list \<times> nat list \<times> bool list" where
  "getUserPolicies user s =
     (let ps = policies (subscriptions s user)
      in (map flightID ps, map flightTimestamp ps, map hasPaidOut ps))"

subsection \<open>Transactions\<close>

text \<open>
  A transaction names its sender, the ether it carries, the seconds elapsed since the block
  of the transaction before it (block timestamps never decrease), the accounts that would
  not take ether from a \<open>transfer\<close> while it runs, and the function it calls.
  A call that reverts commits nothing: the ledger stays as it was, and time still passes.
  The functions that are not \<open>payable\<close> revert when ether is sent with the call.
\<close>

datatype call =
    SetOracle address
  | DepositFunds
  | Subscribe
  | RegisterFlight string nat
  | UpdateFlightStatus string bool

record tx =
  txSender :: address
  txValue :: nat
  txWait :: nat
  txRefuses :: "address \<Rightarrow> bool"
  txCall :: call

definition dispatch_v1 :: "tx \<Rightarrow> nat \<Rightarrow> ledger \<Rightarrow> error + ledger" where
  "dispatch_v1 t now s =
     (case txCall t of
        SetOracle a \<Rightarrow>
          if txValue t \<noteq> 0 then Inl NotPayable else setOracle_v1 (txSender t) a s
      | DepositFunds \<Rightarrow> depositFunds_v1 (txSender t) (txValue t) s
      | Subscribe \<Rightarrow> subscribe_v1 (txSender t) (txValue t) now s
      | RegisterFlight fid ts \<Rightarrow>
          if txValue t \<noteq> 0 then Inl NotPayable else registerFlight_v1 (txSender t) fid ts now s
      | UpdateFlightStatus fid delayed \<Rightarrow>
          if txValue t \<noteq> 0 then Inl NotPayable
          else updateFlightStatus_v1 (txRefuses t) (txSender t) fid delayed now s)"

definition dispatch_v2 :: "tx \<Rightarrow> nat \<Rightarrow> ledger \<Rightarrow> error + ledger" where
  "dispatch_v2 t now s =
     (case txCall t of
        SetOracle a \<Rightarrow>
          if txValue t \<noteq> 0 then Inl NotPayable else setOracle_v2 (txSender t) a s
      | DepositFunds \<Rightarrow> depositFunds_v2 (txSender t) (txValue t) s
      | Subscribe \<Rightarrow> subscribe_v2 (txSender t) (txValue t) now s
      | RegisterFlight fid ts \<Rightarrow>
          if txValue t \<noteq> 0 then Inl NotPayable else registerFlight_v2 (txSender t) fid ts s
      | UpdateFlightStatus fid delayed \<Rightarrow>
          if txValue t \<noteq> 0 then Inl NotPayable
          else updateFlightStatus_v2 (txRefuses t) (txSender t) fid delayed now s)"

text \<open>The committed ledger of a call: the new state, or the old one after a revert.\<close>

definition commit :: "ledger \<Rightarrow> error + ledger \<Rightarrow> ledger" where
  "commit s r = (case r of Inl e \<Rightarrow> s | Inr s' \<Rightarrow> s')"

text \<open>A world is the timestamp of the latest block and the ledger.\<close>

type_synonym world = "nat \<times> ledger"

definition exec_v1 :: "tx \<Rightarrow> world \<Rightarrow> world" where
  "exec_v1 t w =
     (let now = fst w + txWait t in (now, commit (snd w) (dispatch_v1 t now (snd w))))"

definition exec_v2 :: "tx \<Rightarrow> world \<Rightarrow> world" where
  "exec_v2 t w =
     (let now = fst w + txWait t in (now, commit (snd w) (dispatch_v2 t now (snd w))))"

definition run_v1 :: "tx list \<Rightarrow> world \<Rightarrow> world" where
  "run_v1 txs w = fold exec_v1 txs w"

definition run_v2 :: "tx list \<Rightarrow> world \<Rightarrow> world" where
  "run_v2 txs w = fold exec_v2 txs w"

text \<open>The worlds a deployment at time \<open>t0\<close> by \<open>deployer\<close> can reach.\<close>

definition deploy_v1 :: "nat \<Rightarrow> address \<Rightarrow> world" where
  "deploy_v1 t0 deployer = (t0, constructor_v1 deployer)"

definition deploy_v2 :: "nat \<Rightarrow> address \<Rightarrow> world" where
  "deploy_v2 t0 deployer = (t0, constructor_v2 deployer)"

subsection \<open>Notions used to state the properties\<close>

text \<open>The ether sent to \<open>user\<close> according to a trace of transfers.\<close>

definition received :: "address \<Rightarrow> (address \<times> nat) list \<Rightarrow> nat" where
  "received user log = sum_list (map snd (filter (\<lambda>e. fst e = user) log))"

text \<open>The number of policies of a sequence that have paid out.\<close>

definition paidCount :: "Policy list \<Rightarrow> nat" where
  "paidCount ps = length (filter hasPaidOut ps)"

text \<open>
  \<open>extends ps qs\<close>: the sequence \<open>qs\<close> is \<open>ps\<close>, position by position the same flight, where a
  policy that had paid out in \<open>ps\<close> has paid out in \<open>qs\<close>, possibly followed by further policies.
\<close>

fun extends :: "Policy list \<Rightarrow> Policy list \<Rightarrow> bool" where
  "extends [] qs = True"
| "extends (p # ps) [] = False"
| "extends (p # ps) (q # qs) =
     (flightID q = flightID p \<and> flightTimestamp q = flightTimestamp p \<and>
      (hasPaidOut p \<longrightarrow> hasPaidOut q) \<and> extends ps qs)"

text \<open>
  \<open>accountedFor u s s'\<close> relates an earlier ledger \<open>s\<close> and a later one \<open>s'\<close>: the policies of
  \<open>u\<close> are still there and one that had paid out has paid out, and the ether sent to \<open>u\<close> has
  grown by exactly \<open>PAYOUT\<close> for each policy of \<open>u\<close> that has turned paid in between.
\<close>

definition accountedFor :: "address \<Rightarrow> ledger \<Rightarrow> ledger \<Rightarrow> bool" where
  "accountedFor u s s' =
     (extends (policies (subscriptions s u)) (policies (subscriptions s' u)) \<and>
      received u (sent s') + PAYOUT * paidCount (policies (subscriptions s u)) =
        received u (sent s) + PAYOUT * paidCount (policies (subscriptions s' u)))"

text \<open>
  A step of the inner loop either leaves the policy and the pool alone, or turns an unpaid
  policy paid together with one transfer of \<open>PAYOUT\<close> to the user.
\<close>

definition stepPays :: "address \<Rightarrow> (Policy \<Rightarrow> pool \<Rightarrow> error + Policy \<times> pool) \<Rightarrow> bool" where
  "stepPays user step =
     (\<forall>p pl p' pl'. step p pl = Inr (p', pl') \<longrightarrow>
        (p' = p \<and> pl' = pl) \<or>
        (\<not> hasPaidOut p \<and> p' = p\<lparr>hasPaidOut := True\<rparr> \<and> PAYOUT \<le> fst pl \<and>
         pl' = (fst pl - PAYOUT, snd pl @ [(user, PAYOUT)])))"





text \<open>
  Two invariants of the ledgers reached from a deployment. Every subscriber whose stored flag
  is set is on the list that the payout scan walks (\<open>allSubscribers\<close> in the one version,
  \<open>allUsersWithFlights\<close> in the other). And in \<open>src/contracts/FlightInsurance.sol\<close>, where the
  scan tests the time only, a listed subscriber whose flag is clear has a period that is over.
\<close>

definition activeListed_v1 :: "ledger \<Rightarrow> bool" where
  "activeListed_v1 s = (\<forall>u. isActive (subscriptions s u) \<longrightarrow> u \<in> set (allSubscribers s))"

definition activeListed_v2 :: "ledger \<Rightarrow> bool" where
  "activeListed_v2 s = (\<forall>u. isActive (subscriptions s u) \<longrightarrow> u \<in> set (allUsersWithFlights s))"


subsection \<open>Scenarios\<close>

text \<open>In the scenarios every account takes the ether it is sent.\<close>

definition noRefusal :: "address \<Rightarrow> bool" where
  "noRefusal a = False"

definition mkTx :: "address \<Rightarrow> nat \<Rightarrow> nat \<Rightarrow> call \<Rightarrow> tx" where
  "mkTx sender val wait c =
     \<lparr>txSender = sender, txValue = val, txWait = wait, txRefuses = noRefusal, txCall = c\<rparr>"

text \<open>
  The set-up of the repository's tests: account 1 deploys at time 1000, names account 2 the
  oracle and deposits 10 ether; then account 3 subscribes and registers flight FL123,
  scheduled at time 1000.
\<close>

definition setup_txs :: "tx list" where
  "setup_txs =
     [mkTx 1 0 0 (SetOracle 2),
      mkTx 1 (10 * PAYOUT) 0 DepositFunds,
      mkTx 3 PREMIUM 0 Subscribe,
      mkTx 3 0 0 (RegisterFlight ''FL123'' 1000)]"

definition setup_v1 :: world where
  "setup_v1 = run_v1 setup_txs (deploy_v1 1000 1)"

definition setup_v2 :: world where
  "setup_v2 = run_v2 setup_txs (deploy_v2 1000 1)"

text \<open>
  Two hours and a bit after the set-up the oracle reports FL123 delayed, which pays account 3;
  \<open>rereport\<close> is the same report once more, 100 seconds later.
\<close>

definition paid_txs :: "tx list" where
  "paid_txs = setup_txs @ [mkTx 2 0 7300 (UpdateFlightStatus ''FL123'' True)]"

definition paid_v1 :: world where
  "paid_v1 = run_v1 paid_txs (deploy_v1 1000 1)"

definition paid_v2 :: world where
  "paid_v2 = run_v2 paid_txs (deploy_v2 1000 1)"

definition rereport :: tx where
  "rereport = mkTx 2 0 100 (UpdateFlightStatus ''FL123'' True)"

text \<open>
  Or the first report of FL123 comes thirty days after the set-up, when the subscription of
  account 3 has expired; \<open>resubscribe\<close> is the subscription that account 3 buys ten seconds
  after that report.
\<close>

definition lapsed_report :: tx where
  "lapsed_report = mkTx 2 0 2592000 (UpdateFlightStatus ''FL123'' True)"

definition lapsed_txs :: "tx list" where
  "lapsed_txs = setup_txs @ [lapsed_report]"

definition lapsed_v1 :: ledger where
  "lapsed_v1 = snd (run_v1 lapsed_txs (deploy_v1 1000 1))"

definition lapsed_v2 :: ledger where
  "lapsed_v2 = snd (run_v2 lapsed_txs (deploy_v2 1000 1))"


text \<open>
  Or, thirty days after the set-up, the administrator deposits one wei: time has passed, and
  no report has touched the subscription of account 3.
\<close>

definition late_deposit :: tx where
  "late_deposit = mkTx 1 1 2592000 DepositFunds"

text \<open>The set-up, and then account 4 subscribes as well.\<close>

definition two_txs :: "tx list" where
  "two_txs = setup_txs @ [mkTx 4 PREMIUM 0 Subscribe]"

definition two_v1 :: ledger where
  "two_v1 = snd (run_v1 two_txs (deploy_v1 1000 1))"

definition two_v2 :: ledger where
  "two_v2 = snd (run_v2 two_txs (deploy_v2 1000 1))"

text \<open>
  \<open>src/contracts/FlightInsurance.sol\<close> right after deployment by account 1, which is insurer
  and oracle at once, and has subscribed.
\<close>

definition oracle_subscribed_v1 :: ledger where
  "oracle_subscribed_v1 = snd (run_v1 [mkTx 1 PREMIUM 0 Subscribe] (deploy_v1 1000 1))"







text \<open>
  The ledgers that account 3 commits by subscribing again, at time 2593000, once the report
  has cleared its flag.
\<close>

definition resubscribed_v1 :: ledger where
  "resubscribed_v1 = commit lapsed_v1 (subscribe_v1 3 PREMIUM 2593000 lapsed_v1)"

definition resubscribed_v2 :: ledger where
  "resubscribed_v2 = commit lapsed_v2 (subscribe_v2 3 PREMIUM 2593000 lapsed_v2)"





section \<open>Evaluation of concrete calls\<close>

lemmas const_defs =
  PREMIUM_def PAYOUT_def DELAY_THRESHOLD_def SUBSCRIPTION_DURATION_def UINT256_LIMIT_def

lemmas op_defs =
  constructor_v1_def setOracle_v1_def depositFunds_v1_def subscribe_v1_def registerFlight_v1_def
  policyStep_v1_def updateFlightStatus_v1_def
  constructor_v2_def setOracle_v2_def depositFunds_v2_def subscribe_v2_def registerFlight_v2_def
  policyStep_v2_def updateFlightStatus_v2_def
  isSubscribed_def payOut_def transfer_def overflows_def pushIfAbsent_def newPolicy_def
  emptySubscription_def noRefusal_def Let_def

lemmas run_defs =
  run_v1_def run_v2_def exec_v1_def exec_v2_def dispatch_v1_def dispatch_v2_def commit_def
  deploy_v1_def deploy_v2_def mkTx_def setup_txs_def lapsed_txs_def lapsed_report_def
  lapsed_v1_def lapsed_v2_def

section \<open>Subscription\<close>

text \<open>
  Claim C5. For every payment different from \<open>PREMIUM\<close>, \<open>subscribe\<close> fails with
  \<open>WrongPremium\<close> and commits nothing, so the ledger (subscriptions and pool balance alike) is
  as before; and with the exact premium it fails with \<open>AlreadySubscribed\<close> when the stored
  flag of the caller's subscription is set. Both versions of the contract.
\<close>

theorem subscribe_rejected:
  "(payment \<noteq> PREMIUM \<longrightarrow>
      subscribe_v1 sender payment now s = Inl WrongPremium \<and>
      commit s (subscribe_v1 sender payment now s) = s \<and>
      subscribe_v2 sender payment now s = Inl WrongPremium \<and>
      commit s (subscribe_v2 sender payment now s) = s) \<and>
   (isActive (subscriptions s sender) \<longrightarrow>
      subscribe_v1 sender PREMIUM now s = Inl AlreadySubscribed \<and>
      commit s (subscribe_v1 sender PREMIUM now s) = s \<and>
      subscribe_v2 sender PREMIUM now s = Inl AlreadySubscribed \<and>
      commit s (subscribe_v2 sender PREMIUM now s) = s)"
  by (simp add: subscribe_v1_def subscribe_v2_def commit_def)

theorem subscribe_rejected_witness:
  "(50000000000000000 \<noteq> PREMIUM \<and>
    subscribe_v1 3 50000000000000000 1000 (snd (run_v1 setup_txs (deploy_v1 1000 1))) = Inl WrongPremium \<and>
    subscribe_v2 3 50000000000000000 1000 (snd (run_v1 setup_txs (deploy_v1 1000 1))) = Inl WrongPremium) \<and>
   (isActive (subscriptions (snd (run_v1 setup_txs (deploy_v1 1000 1))) 3) \<and>
    subscribe_v1 3 PREMIUM 1000 (snd (run_v1 setup_txs (deploy_v1 1000 1))) = Inl AlreadySubscribed \<and>
    subscribe_v2 3 PREMIUM 1000 (snd (run_v1 setup_txs (deploy_v1 1000 1))) = Inl AlreadySubscribed)"
proof -
  have wrong: "(50000000000000000 :: nat) \<noteq> PREMIUM"
    by (simp add: PREMIUM_def)
  have active: "isActive (subscriptions (snd (run_v1 setup_txs (deploy_v1 1000 1))) 3)"
    by (simp add: run_defs op_defs const_defs)
  show ?thesis
    using wrong active
      subscribe_rejected [of 50000000000000000 3 1000 "snd (run_v1 setup_txs (deploy_v1 1000 1))"]
    by simp
qed

text \<open>
  Claim C9. With exactly \<open>PREMIUM\<close> and a clear stored flag \<open>subscribe\<close> succeeds, in both
  versions, and the ledger it commits is the old one with the caller's flag set, the caller's
  \<open>startTime\<close> set to the block timestamp, the caller put on the list (or lists) of
  subscribers and the premium added to the contract's balance. And whenever \<open>subscribe\<close>
  succeeds, it was paid exactly \<open>PREMIUM\<close> with the flag clear; it has set the flag and
  \<open>startTime\<close>, added the premium to the balance, sent nothing, and kept the caller's policy
  sequence (and every other subscriber's record) as it was: the policies of an earlier
  period are retained.
\<close>

theorem subscribe_effect:
  "(\<not> isActive (subscriptions s sender) \<longrightarrow>
      subscribe_v1 sender PREMIUM now s =
        Inr (s\<lparr>subscriptions := (subscriptions s)
                 (sender := (subscriptions s sender)\<lparr>isActive := True, startTime := now\<rparr>),
               allSubscribers := allSubscribers s @ [sender],
               balance := balance s + PREMIUM\<rparr>) \<and>
      subscribe_v2 sender PREMIUM now s =
        Inr (s\<lparr>subscriptions := (subscriptions s)
                 (sender := (subscriptions s sender)\<lparr>isActive := True, startTime := now\<rparr>),
               allSubscribers := pushIfAbsent (allSubscribers s) sender,
               allUsersWithFlights := pushIfAbsent (allUsersWithFlights s) sender,
               balance := balance s + PREMIUM\<rparr>)) \<and>
   ((subscribe_v1 sender payment now s = Inr s' \<or> subscribe_v2 sender payment now s = Inr s') \<longrightarrow>
     payment = PREMIUM \<and>
     \<not> isActive (subscriptions s sender) \<and>
     isActive (subscriptions s' sender) \<and>
     startTime (subscriptions s' sender) = now \<and>
     balance s' = balance s + PREMIUM \<and>
     sent s' = sent s \<and>
     policies (subscriptions s' sender) = policies (subscriptions s sender) \<and>
     (\<forall>other. other \<noteq> sender \<longrightarrow> subscriptions s' other = subscriptions s other))"
  by (auto simp: subscribe_v1_def subscribe_v2_def split: if_splits)

theorem subscribe_effect_witness:
  "(\<not> isActive (subscriptions lapsed_v1 3) \<and>
    policies (subscriptions lapsed_v1 3) = [newPolicy ''FL123'' 1000] \<and>
    subscribe_v1 3 PREMIUM 2593000 lapsed_v1 = Inr resubscribed_v1 \<and>
    isActive (subscriptions resubscribed_v1 3) \<and>
    startTime (subscriptions resubscribed_v1 3) = 2593000 \<and>
    policies (subscriptions resubscribed_v1 3) = [newPolicy ''FL123'' 1000] \<and>
    balance resubscribed_v1 = balance lapsed_v1 + PREMIUM) \<and>
   (\<not> isActive (subscriptions lapsed_v2 3) \<and>
    policies (subscriptions lapsed_v2 3) = [newPolicy ''FL123'' 1000] \<and>
    subscribe_v2 3 PREMIUM 2593000 lapsed_v2 = Inr resubscribed_v2 \<and>
    isActive (subscriptions resubscribed_v2 3) \<and>
    startTime (subscriptions resubscribed_v2 3) = 2593000 \<and>
    policies (subscriptions resubscribed_v2 3) = [newPolicy ''FL123'' 1000] \<and>
    balance resubscribed_v2 = balance lapsed_v2 + PREMIUM)"
proof -
  have i1: "\<not> isActive (subscriptions lapsed_v1 3)"
    and k1: "policies (subscriptions lapsed_v1 3) = [newPolicy ''FL123'' 1000]"
    by (simp_all add: run_defs op_defs const_defs)
  have i2: "\<not> isActive (subscriptions lapsed_v2 3)"
    and k2: "policies (subscriptions lapsed_v2 3) = [newPolicy ''FL123'' 1000]"
    by (simp_all add: run_defs op_defs const_defs)
  from i1 subscribe_effect [of lapsed_v1 3 2593000]
  have ok1: "subscribe_v1 3 PREMIUM 2593000 lapsed_v1 = Inr resubscribed_v1"
    unfolding resubscribed_v1_def by (simp add: commit_def)
  from i2 subscribe_effect [of lapsed_v2 3 2593000]
  have ok2: "subscribe_v2 3 PREMIUM 2593000 lapsed_v2 = Inr resubscribed_v2"
    unfolding resubscribed_v2_def by (simp add: commit_def)
  from ok1 subscribe_effect [of lapsed_v1 3 2593000 PREMIUM resubscribed_v1]
  have e1: "isActive (subscriptions resubscribed_v1 3) \<and>
    startTime (subscriptions resubscribed_v1 3) = 2593000 \<and>
    policies (subscriptions resubscribed_v1 3) = policies (subscriptions lapsed_v1 3) \<and>
    balance resubscribed_v1 = balance lapsed_v1 + PREMIUM"
    by blast
  from ok2 subscribe_effect [of lapsed_v2 3 2593000 PREMIUM resubscribed_v2]
  have e2: "isActive (subscriptions resubscribed_v2 3) \<and>
    startTime (subscriptions resubscribed_v2 3) = 2593000 \<and>
    policies (subscriptions resubscribed_v2 3) = policies (subscriptions lapsed_v2 3) \<and>
    balance resubscribed_v2 = balance lapsed_v2 + PREMIUM"
    by blast
  from i1 i2 k1 k2 ok1 ok2 e1 e2 show ?thesis by simp
qed

section \<open>Funding\<close>

text \<open>
  Claim C8, as the code has it. A deposit by the administrator adds exactly the amount to the
  contract's balance and changes nothing else. \<open>src/unnamed/part_002\<close> requires a positive
  amount and fails with \<open>InvalidAmount\<close> on zero; \<open>src/contracts/FlightInsurance.sol\<close> has no
  check of the amount and accepts a deposit of zero. Any other caller is \<open>Unauthorized\<close>.
\<close>

theorem depositFunds_effect:
  "(sender = owner s \<longrightarrow>
      depositFunds_v1 sender amount s = Inr (s\<lparr>balance := balance s + amount\<rparr>) \<and>
      depositFunds_v2 sender 0 s = Inl InvalidAmount \<and>
      (0 < amount \<longrightarrow> depositFunds_v2 sender amount s = Inr (s\<lparr>balance := balance s + amount\<rparr>))) \<and>
   (sender \<noteq> owner s \<longrightarrow>
      depositFunds_v1 sender amount s = Inl Unauthorized \<and>
      depositFunds_v2 sender amount s = Inl Unauthorized)"
  by (simp add: depositFunds_v1_def depositFunds_v2_def)

theorem depositFunds_effect_witness:
  "(1 = owner (constructor_v2 1) \<and> (0::nat) < 5 \<and>
    depositFunds_v2 1 0 (constructor_v2 1) = Inl InvalidAmount \<and>
    balance (commit (constructor_v2 1) (depositFunds_v2 1 5 (constructor_v2 1))) = 5 \<and>
    balance (commit (constructor_v2 1) (depositFunds_v1 1 5 (constructor_v2 1))) = 5) \<and>
   (3 \<noteq> owner (constructor_v2 1) \<and>
    depositFunds_v2 3 5 (constructor_v2 1) = Inl Unauthorized)"
proof -
  have own: "1 = owner (constructor_v2 1)" and other: "3 \<noteq> owner (constructor_v2 1)"
    by (simp_all add: constructor_v2_def)
  have zero: "balance (constructor_v2 1) = 0"
    by (simp add: constructor_v2_def)
  show ?thesis
    using own other zero
      depositFunds_effect [of 1 "constructor_v2 1" 5]
      depositFunds_effect [of 3 "constructor_v2 1" 5]
    by (simp add: commit_def)
qed

text \<open>
  The claim as worded fails on \<open>src/contracts/FlightInsurance.sol\<close>: the deployer's deposit of
  zero wei is accepted and leaves the fresh ledger as it is.
\<close>

theorem depositFunds_v1_accepts_zero:
  "depositFunds_v1 1 0 (constructor_v1 1) = Inr (constructor_v1 1) \<and>
   depositFunds_v1 1 0 (constructor_v1 1) \<noteq> Inl InvalidAmount"
  by (simp add: depositFunds_v1_def constructor_v1_def)

section \<open>Payouts\<close>

subsection \<open>Every payout is tied to one policy turning paid\<close>

lemma extends_refl: "extends ps ps"
  by (induction ps) simp_all

lemma extends_append: "extends ps (ps @ qs)"
  by (induction ps) simp_all

lemma extends_trans: "extends ps qs \<Longrightarrow> extends qs rs \<Longrightarrow> extends ps rs"
proof (induction ps qs arbitrary: rs rule: extends.induct)
  case (1 qs)
  then show ?case by simp
next
  case (2 p ps)
  then show ?case by simp
next
  case (3 p ps q qs)
  then show ?case by (cases rs) auto
qed

lemma extends_nth:
  "extends ps qs \<Longrightarrow> j < length ps \<Longrightarrow>
     j < length qs \<and> flightID (qs ! j) = flightID (ps ! j) \<and>
     flightTimestamp (qs ! j) = flightTimestamp (ps ! j) \<and>
     (hasPaidOut (ps ! j) \<longrightarrow> hasPaidOut (qs ! j))"
proof (induction ps qs arbitrary: j rule: extends.induct)
  case (3 p ps q qs)
  then show ?case by (cases j) auto
qed simp_all

lemma received_append: "received u (xs @ ys) = received u xs + received u ys"
  by (simp add: received_def)

lemma received_replicate:
  "received v (replicate k (u, a)) = (if v = u then k * a else 0)"
  by (simp add: received_def sum_list_replicate)

lemma paidCount_Cons: "paidCount (p # ps) = (if hasPaidOut p then 1 else 0) + paidCount ps"
  by (simp add: paidCount_def)

lemma paidCount_append: "paidCount (ps @ qs) = paidCount ps + paidCount qs"
  by (simp add: paidCount_def)

lemma payOut_Inr:
  "payOut refuses user p pl = Inr (p', pl') \<Longrightarrow>
     p' = p\<lparr>hasPaidOut := True\<rparr> \<and> PAYOUT \<le> fst pl \<and>
     pl' = (fst pl - PAYOUT, snd pl @ [(user, PAYOUT)])"
  by (auto simp: payOut_def transfer_def split: if_splits)

lemma stepPays_v1: "stepPays user (policyStep_v1 refuses user fid now)"
  by (auto simp: stepPays_def policyStep_v1_def split: if_splits dest: payOut_Inr)

lemma stepPays_v2: "stepPays user (policyStep_v2 refuses active user fid now)"
  by (auto simp: stepPays_def policyStep_v2_def Let_def split: if_splits dest: payOut_Inr)

lemma scanPolicies_accounted:
  assumes "stepPays user step" and "scanPolicies step ps pl = Inr (ps', pl')"
  shows "extends ps ps' \<and> length ps' = length ps \<and>
         (\<exists>k. paidCount ps' = paidCount ps + k \<and> fst pl = fst pl' + PAYOUT * k \<and>
              snd pl' = snd pl @ replicate k (user, PAYOUT))"
  using assms(2)
proof (induction ps arbitrary: pl ps' pl')
  case Nil
  then show ?case by simp
next
  case (Cons p ps)
  from Cons.prems obtain p1 pl1 ps1 where
    st: "step p pl = Inr (p1, pl1)" and
    rest: "scanPolicies step ps pl1 = Inr (ps1, pl')" and
    ps': "ps' = p1 # ps1"
    by (auto split: sum.splits)
  from Cons.IH [OF rest] obtain k where
    ex: "extends ps ps1" and len: "length ps1 = length ps" and
    k: "paidCount ps1 = paidCount ps + k" "fst pl1 = fst pl' + PAYOUT * k"
       "snd pl' = snd pl1 @ replicate k (user, PAYOUT)"
    by blast
  from assms(1) st consider
    (same) "p1 = p" "pl1 = pl"
  | (paid) "\<not> hasPaidOut p" "p1 = p\<lparr>hasPaidOut := True\<rparr>" "PAYOUT \<le> fst pl"
      "pl1 = (fst pl - PAYOUT, snd pl @ [(user, PAYOUT)])"
    unfolding stepPays_def by blast
  then show ?case
  proof cases
    case same
    with ex len k ps' show ?thesis
      by (auto simp: paidCount_Cons)
  next
    case paid
    have "snd pl' = snd pl @ replicate (Suc k) (user, PAYOUT)"
      using paid k by (simp add: replicate_append_same)
    moreover have "fst pl = fst pl' + PAYOUT * Suc k"
      using paid k by simp
    moreover have "paidCount ps' = paidCount (p # ps) + Suc k"
      using paid k ps' by (simp add: paidCount_Cons)
    ultimately show ?thesis
      using ex len ps' paid by auto
  qed
qed

lemma accountedFor_refl: "accountedFor u s s"
  by (simp add: accountedFor_def extends_refl)

lemma accountedFor_trans:
  "accountedFor u s s1 \<Longrightarrow> accountedFor u s1 s2 \<Longrightarrow> accountedFor u s s2"
  unfolding accountedFor_def
  by (auto intro: extends_trans)

lemma accountedFor_same:
  "policies (subscriptions s' u) = policies (subscriptions s u) \<Longrightarrow> sent s' = sent s \<Longrightarrow>
   accountedFor u s s'"
  by (simp add: accountedFor_def extends_refl)

lemma accountedFor_scan:
  assumes "stepPays u step"
    and "scanPolicies step (policies sub) (balance s, sent s) = Inr (ps', pl')"
    and "policies (subscriptions s u) = policies sub"
  shows "accountedFor v s
           (s\<lparr>subscriptions := (subscriptions s)(u := sub\<lparr>policies := ps'\<rparr>),
              balance := fst pl', sent := snd pl'\<rparr>)"
proof -
  from scanPolicies_accounted [OF assms(1,2)] obtain k where
    ex: "extends (policies sub) ps'" and
    k: "paidCount ps' = paidCount (policies sub) + k"
       "snd pl' = sent s @ replicate k (u, PAYOUT)"
    by auto
  show ?thesis
  proof (cases "v = u")
    case True
    with ex k assms(3) show ?thesis
      by (simp add: accountedFor_def received_append received_replicate algebra_simps)
  next
    case False
    with k show ?thesis
      by (simp add: accountedFor_def received_append received_replicate extends_refl)
  qed
qed

lemma scanSubscribers_v1_accounted:
  "scanSubscribers_v1 refuses fid now us s = Inr s' \<Longrightarrow> accountedFor v s s'"
proof (induction us arbitrary: s)
  case Nil
  then show ?case by (simp add: accountedFor_refl)
next
  case (Cons u us)
  let ?sub = "subscriptions s u"
  show ?case
  proof (cases "startTime ?sub + SUBSCRIPTION_DURATION \<le> now")
    case True
    let ?s1 = "s\<lparr>subscriptions := (subscriptions s)(u := ?sub\<lparr>isActive := False\<rparr>)\<rparr>"
    from Cons.prems True have "scanSubscribers_v1 refuses fid now us ?s1 = Inr s'"
      by (simp add: Let_def split: if_splits)
    then have "accountedFor v ?s1 s'" by (rule Cons.IH)
    moreover have "accountedFor v s ?s1"
      by (rule accountedFor_same) simp_all
    ultimately show ?thesis by (blast intro: accountedFor_trans)
  next
    case False
    with Cons.prems obtain ps' pl' where
      sc: "scanPolicies (policyStep_v1 refuses u fid now) (policies ?sub) (balance s, sent s) = Inr (ps', pl')" and
      rest: "scanSubscribers_v1 refuses fid now us
               (s\<lparr>subscriptions := (subscriptions s)(u := ?sub\<lparr>policies := ps'\<rparr>),
                  balance := fst pl', sent := snd pl'\<rparr>) = Inr s'"
      by (auto simp: Let_def split: if_splits sum.splits)
    from accountedFor_scan [OF stepPays_v1 sc] Cons.IH [OF rest]
    show ?thesis by (blast intro: accountedFor_trans)
  qed
qed

lemma scanUsers_v2_accounted:
  "scanUsers_v2 refuses fid now us s = Inr s' \<Longrightarrow> accountedFor v s s'"
proof (induction us arbitrary: s)
  case Nil
  then show ?case by (simp add: accountedFor_refl)
next
  case (Cons u us)
  let ?sub = "subscriptions s u"
  let ?active = "isActive ?sub \<and> now < startTime ?sub + SUBSCRIPTION_DURATION"
  let ?sub1 = "if isActive ?sub \<and> \<not> ?active then ?sub\<lparr>isActive := False\<rparr> else ?sub"
  from Cons.prems obtain ps' pl' where
    sc: "scanPolicies (policyStep_v2 refuses ?active u fid now) (policies ?sub1) (balance s, sent s) = Inr (ps', pl')" and
    rest: "scanUsers_v2 refuses fid now us
             (s\<lparr>subscriptions := (subscriptions s)(u := ?sub1\<lparr>policies := ps'\<rparr>),
                balance := fst pl', sent := snd pl'\<rparr>) = Inr s'"
    by (auto simp: Let_def split: if_splits sum.splits)
  have "policies (subscriptions s u) = policies ?sub1" by simp
  from accountedFor_scan [OF stepPays_v2 sc this] Cons.IH [OF rest]
  show ?case by (blast intro: accountedFor_trans)
qed

lemma dispatch_v1_accounted:
  "dispatch_v1 t now s = Inr s' \<Longrightarrow> accountedFor v s s'"
proof (cases "txCall t")
  case (UpdateFlightStatus fid delayed)
  assume "dispatch_v1 t now s = Inr s'"
  with UpdateFlightStatus show ?thesis
    by (cases delayed)
       (auto simp: dispatch_v1_def updateFlightStatus_v1_def Let_def split: if_splits
             intro: accountedFor_same
             dest!: scanSubscribers_v1_accounted [where v = v]
             elim!: accountedFor_trans [rotated])
qed (auto simp: dispatch_v1_def setOracle_v1_def depositFunds_v1_def subscribe_v1_def
       registerFlight_v1_def Let_def accountedFor_def extends_refl extends_append paidCount_append
       paidCount_def newPolicy_def split: if_splits)

lemma dispatch_v2_accounted:
  "dispatch_v2 t now s = Inr s' \<Longrightarrow> accountedFor v s s'"
proof (cases "txCall t")
  case (UpdateFlightStatus fid delayed)
  assume "dispatch_v2 t now s = Inr s'"
  with UpdateFlightStatus show ?thesis
    by (cases delayed)
       (auto simp: dispatch_v2_def updateFlightStatus_v2_def Let_def split: if_splits
             intro: accountedFor_same
             dest!: scanUsers_v2_accounted [where v = v]
             elim!: accountedFor_trans [rotated])
qed (auto simp: dispatch_v2_def setOracle_v2_def depositFunds_v2_def subscribe_v2_def
       registerFlight_v2_def Let_def accountedFor_def extends_refl extends_append paidCount_append
       paidCount_def newPolicy_def split: if_splits)

lemma exec_v1_accounted: "accountedFor v (snd w) (snd (exec_v1 t w))"
  by (cases "dispatch_v1 t (fst w + txWait t) (snd w)")
     (simp_all add: exec_v1_def commit_def Let_def accountedFor_refl dispatch_v1_accounted)

lemma exec_v2_accounted: "accountedFor v (snd w) (snd (exec_v2 t w))"
  by (cases "dispatch_v2 t (fst w + txWait t) (snd w)")
     (simp_all add: exec_v2_def commit_def Let_def accountedFor_refl dispatch_v2_accounted)

lemma run_v1_accounted: "accountedFor v (snd w) (snd (run_v1 txs w))"
proof (induction txs arbitrary: w)
  case Nil
  then show ?case by (simp add: run_v1_def accountedFor_refl)
next
  case (Cons t txs)
  have "accountedFor v (snd (exec_v1 t w)) (snd (run_v1 txs (exec_v1 t w)))"
    by (rule Cons.IH)
  with exec_v1_accounted [of v w t] show ?case
    by (auto simp: run_v1_def intro: accountedFor_trans)
qed

lemma run_v2_accounted: "accountedFor v (snd w) (snd (run_v2 txs w))"
proof (induction txs arbitrary: w)
  case Nil
  then show ?case by (simp add: run_v2_def accountedFor_refl)
next
  case (Cons t txs)
  have "accountedFor v (snd (exec_v2 t w)) (snd (run_v2 txs (exec_v2 t w)))"
    by (rule Cons.IH)
  with exec_v2_accounted [of v w t] show ?case
    by (auto simp: run_v2_def intro: accountedFor_trans)
qed

text \<open>
  Claim C1. Take any world \<open>w\<close> and any sequence \<open>txs\<close> of transactions of any senders (reports
  of any flights, repeated or not, and the other calls in between), in either version of the
  contract. For every subscriber \<open>u\<close>: each policy that \<open>u\<close> had in \<open>w\<close> is at its position
  afterwards, and once paid out it is paid out afterwards (the flag never goes back, so it
  turns from false to true at most once); and the ether sent to \<open>u\<close> over the whole sequence
  is \<open>PAYOUT\<close> times the number of policies of \<open>u\<close> that turned paid in it. So a policy
  that has paid out causes no further transfer, however often its flight is reported again.
\<close>

theorem payout_at_most_once:
  "accountedFor u (snd w) (snd (run_v1 txs w)) \<and>
   accountedFor u (snd w) (snd (run_v2 txs w)) \<and>
   (\<forall>j < length (policies (subscriptions (snd w) u)).
      hasPaidOut (policies (subscriptions (snd w) u) ! j) \<longrightarrow>
        hasPaidOut (policies (subscriptions (snd (run_v1 txs w)) u) ! j) \<and>
        hasPaidOut (policies (subscriptions (snd (run_v2 txs w)) u) ! j))"
proof -
  have a1: "accountedFor u (snd w) (snd (run_v1 txs w))"
    by (rule run_v1_accounted)
  have a2: "accountedFor u (snd w) (snd (run_v2 txs w))"
    by (rule run_v2_accounted)
  from a1 a2 show ?thesis
    by (auto simp: accountedFor_def dest: extends_nth)
qed

theorem payout_at_most_once_witness:
  "(0 < length (policies (subscriptions (snd paid_v1) 3)) \<and>
    hasPaidOut (policies (subscriptions (snd paid_v1) 3) ! 0) \<and>
    hasPaidOut (policies (subscriptions (snd (run_v1 [rereport] paid_v1)) 3) ! 0) \<and>
    received 3 (sent (snd paid_v1)) = PAYOUT \<and>
    received 3 (sent (snd (run_v1 [rereport] paid_v1))) = PAYOUT) \<and>
   (0 < length (policies (subscriptions (snd paid_v2) 3)) \<and>
    hasPaidOut (policies (subscriptions (snd paid_v2) 3) ! 0) \<and>
    hasPaidOut (policies (subscriptions (snd (run_v2 [rereport] paid_v2)) 3) ! 0) \<and>
    received 3 (sent (snd paid_v2)) = PAYOUT \<and>
    received 3 (sent (snd (run_v2 [rereport] paid_v2))) = PAYOUT)"
proof -
  have p1: "policies (subscriptions (snd paid_v1) 3) = [(newPolicy ''FL123'' 1000)\<lparr>hasPaidOut := True\<rparr>]"
    and s1: "sent (snd paid_v1) = [(3, PAYOUT)]"
    by (simp_all add: paid_v1_def paid_txs_def run_defs op_defs const_defs)
  have p2: "policies (subscriptions (snd paid_v2) 3) = [(newPolicy ''FL123'' 1000)\<lparr>hasPaidOut := True\<rparr>]"
    and s2: "sent (snd paid_v2) = [(3, PAYOUT)]"
    by (simp_all add: paid_v2_def paid_txs_def run_defs op_defs const_defs)
  have q1: "paidCount (policies (subscriptions (snd (run_v1 [rereport] paid_v1)) 3)) = 1"
    by (simp add: paid_v1_def paid_txs_def rereport_def run_defs op_defs const_defs paidCount_def)
  have q2: "paidCount (policies (subscriptions (snd (run_v2 [rereport] paid_v2)) 3)) = 1"
    by (simp add: paid_v2_def paid_txs_def rereport_def run_defs op_defs const_defs paidCount_def)
  from payout_at_most_once [of 3 paid_v1 "[rereport]"] p1 s1 q1
  have v1: "hasPaidOut (policies (subscriptions (snd (run_v1 [rereport] paid_v1)) 3) ! 0) \<and>
      received 3 (sent (snd (run_v1 [rereport] paid_v1))) = PAYOUT"
    by (simp add: accountedFor_def paidCount_def received_def newPolicy_def)
  from payout_at_most_once [of 3 paid_v2 "[rereport]"] p2 s2 q2
  have v2: "hasPaidOut (policies (subscriptions (snd (run_v2 [rereport] paid_v2)) 3) ! 0) \<and>
      received 3 (sent (snd (run_v2 [rereport] paid_v2))) = PAYOUT"
    by (simp add: accountedFor_def paidCount_def received_def newPolicy_def)
  from v1 v2 p1 p2 s1 s2 show ?thesis
    by (simp add: received_def newPolicy_def)
qed

subsection \<open>What a scan leaves alone\<close>

lemma scanPolicies_length:
  "scanPolicies step ps pl = Inr (ps', pl') \<Longrightarrow> length ps' = length ps"
  by (induction ps arbitrary: pl ps' pl') (auto split: sum.splits)

lemma scanPolicies_inactive_v2:
  "scanPolicies (policyStep_v2 refuses False u fid now) ps pl = Inr (ps', pl') \<Longrightarrow> ps' = ps \<and> pl' = pl"
  by (induction ps arbitrary: pl ps' pl')
     (auto simp: policyStep_v2_def Let_def split: sum.splits if_splits)

lemma scanSubscribers_v1_frame:
  "scanSubscribers_v1 refuses fid now us s = Inr s' \<Longrightarrow>
     owner s' = owner s \<and> oracleAddr s' = oracleAddr s \<and> flightDelays s' = flightDelays s \<and>
     allSubscribers s' = allSubscribers s \<and> allUsersWithFlights s' = allUsersWithFlights s"
  by (induction us arbitrary: s) (auto simp: Let_def split: if_splits sum.splits)

lemma scanUsers_v2_frame:
  "scanUsers_v2 refuses fid now us s = Inr s' \<Longrightarrow>
     owner s' = owner s \<and> oracleAddr s' = oracleAddr s \<and> flightDelays s' = flightDelays s \<and>
     allSubscribers s' = allSubscribers s \<and> allUsersWithFlights s' = allUsersWithFlights s"
  by (induction us arbitrary: s) (auto simp: Let_def split: if_splits sum.splits)

lemma scanSubscribers_v1_sub:
  "scanSubscribers_v1 refuses fid now us s = Inr s' \<Longrightarrow>
     startTime (subscriptions s' v) = startTime (subscriptions s v) \<and>
     length (policies (subscriptions s' v)) = length (policies (subscriptions s v)) \<and>
     (v \<notin> set us \<longrightarrow> subscriptions s' v = subscriptions s v) \<and>
     (v \<in> set us \<longrightarrow>
        isActive (subscriptions s' v) =
          (isActive (subscriptions s v) \<and> now < startTime (subscriptions s v) + SUBSCRIPTION_DURATION)) \<and>
     (startTime (subscriptions s v) + SUBSCRIPTION_DURATION \<le> now \<longrightarrow>
        policies (subscriptions s' v) = policies (subscriptions s v))"
proof (induction us arbitrary: s)
  case Nil
  then show ?case by simp
next
  case (Cons u us)
  let ?sub = "subscriptions s u"
  show ?case
  proof (cases "startTime ?sub + SUBSCRIPTION_DURATION \<le> now")
    case True
    let ?s1 = "s\<lparr>subscriptions := (subscriptions s)(u := ?sub\<lparr>isActive := False\<rparr>)\<rparr>"
    from Cons.prems True have "scanSubscribers_v1 refuses fid now us ?s1 = Inr s'"
      by (simp add: Let_def split: if_splits)
    from Cons.IH [OF this] True show ?thesis
      by (cases "v = u") auto
  next
    case False
    with Cons.prems obtain ps' pl' where
      sc: "scanPolicies (policyStep_v1 refuses u fid now) (policies ?sub) (balance s, sent s) = Inr (ps', pl')" and
      rest: "scanSubscribers_v1 refuses fid now us
               (s\<lparr>subscriptions := (subscriptions s)(u := ?sub\<lparr>policies := ps'\<rparr>),
                  balance := fst pl', sent := snd pl'\<rparr>) = Inr s'"
      by (auto simp: Let_def split: if_splits sum.splits)
    from Cons.IH [OF rest] scanPolicies_length [OF sc] False show ?thesis
      by (cases "v = u") auto
  qed
qed

lemma scanUsers_v2_sub:
  "scanUsers_v2 refuses fid now us s = Inr s' \<Longrightarrow>
     startTime (subscriptions s' v) = startTime (subscriptions s v) \<and>
     length (policies (subscriptions s' v)) = length (policies (subscriptions s v)) \<and>
     (v \<notin> set us \<longrightarrow> subscriptions s' v = subscriptions s v) \<and>
     (v \<in> set us \<longrightarrow>
        isActive (subscriptions s' v) =
          (isActive (subscriptions s v) \<and> now < startTime (subscriptions s v) + SUBSCRIPTION_DURATION)) \<and>
     (\<not> (isActive (subscriptions s v) \<and> now < startTime (subscriptions s v) + SUBSCRIPTION_DURATION) \<longrightarrow>
        policies (subscriptions s' v) = policies (subscriptions s v))"
proof (induction us arbitrary: s)
  case Nil
  then show ?case by simp
next
  case (Cons u us)
  let ?sub = "subscriptions s u"
  let ?active = "isActive ?sub \<and> now < startTime ?sub + SUBSCRIPTION_DURATION"
  let ?sub1 = "if isActive ?sub \<and> \<not> ?active then ?sub\<lparr>isActive := False\<rparr> else ?sub"
  from Cons.prems obtain ps' pl' where
    sc: "scanPolicies (policyStep_v2 refuses ?active u fid now) (policies ?sub1) (balance s, sent s) = Inr (ps', pl')" and
    rest: "scanUsers_v2 refuses fid now us
             (s\<lparr>subscriptions := (subscriptions s)(u := ?sub1\<lparr>policies := ps'\<rparr>),
                balance := fst pl', sent := snd pl'\<rparr>) = Inr s'"
    by (auto simp: Let_def split: if_splits sum.splits)
  have same: "\<not> ?active \<Longrightarrow> ps' = policies ?sub"
    using sc scanPolicies_inactive_v2 [of refuses u fid now "policies ?sub1" "(balance s, sent s)" ps' pl']
    by (auto split: if_splits)
  from Cons.IH [OF rest] scanPolicies_length [OF sc] same show ?case
    by (cases "v = u") (auto split: if_splits)
qed

section \<open>Flight registration\<close>

lemma flightRegistered_iff: "flightRegistered ps fid \<longleftrightarrow> fid \<in> flightID ` set ps"
  by (induction ps) auto

lemma userExists_iff: "userExists xs a \<longleftrightarrow> a \<in> set xs"
  by (induction xs) auto

lemma dispatch_v2_length:
  "dispatch_v2 t now s = Inr s' \<Longrightarrow> txSender t = oracleAddr s \<Longrightarrow>
     length (policies (subscriptions s' u)) = length (policies (subscriptions s u))"
proof (cases "txCall t")
  case (UpdateFlightStatus fid delayed)
  assume "dispatch_v2 t now s = Inr s'"
  with UpdateFlightStatus show ?thesis
    by (cases delayed)
       (auto simp: dispatch_v2_def updateFlightStatus_v2_def Let_def split: if_splits
             dest!: scanUsers_v2_sub [where v = u])
qed (auto simp: dispatch_v2_def setOracle_v2_def depositFunds_v2_def subscribe_v2_def
       registerFlight_v2_def Let_def split: if_splits)

text \<open>
  Claim C7, as the code has it. In \<open>src/unnamed/part_002\<close> the modifier \<open>notOracle\<close> makes
  \<open>registerFlight\<close> fail for the oracle, whatever the flight and the timestamp, and no
  transaction that the oracle sends changes the number of policies of any subscriber \<open>u\<close>.
  \<open>src/contracts/FlightInsurance.sol\<close> has no such check: there \<open>registerFlight\<close> succeeds for
  any caller, the oracle included, who holds an active, unexpired subscription and registers
  a flight id for the first time.
\<close>

theorem registerFlight_by_oracle:
  "(sender = oracleAddr s \<longrightarrow>
      registerFlight_v2 sender fid ts s = Inl Unauthorized \<and>
      commit s (registerFlight_v2 sender fid ts s) = s) \<and>
   (txSender t = oracleAddr s \<longrightarrow>
      length (policies (subscriptions (commit s (dispatch_v2 t now s)) u)) =
        length (policies (subscriptions s u))) \<and>
   (isActive (subscriptions s sender) \<and>
    \<not> overflows (startTime (subscriptions s sender)) SUBSCRIPTION_DURATION \<and>
    now < startTime (subscriptions s sender) + SUBSCRIPTION_DURATION \<and>
    \<not> flightRegistered (policies (subscriptions s sender)) fid \<longrightarrow>
      registerFlight_v1 sender fid ts now s =
        Inr (s\<lparr>subscriptions := (subscriptions s)
                 (sender := (subscriptions s sender)
                    \<lparr>policies := policies (subscriptions s sender) @ [newPolicy fid ts]\<rparr>)\<rparr>))"
proof -
  have "txSender t = oracleAddr s \<Longrightarrow>
      length (policies (subscriptions (commit s (dispatch_v2 t now s)) u)) =
        length (policies (subscriptions s u))"
    by (cases "dispatch_v2 t now s") (simp_all add: commit_def dispatch_v2_length)
  then show ?thesis
    by (simp add: registerFlight_v2_def registerFlight_v1_def commit_def Let_def)
qed

theorem registerFlight_by_oracle_witness:
  "(2 = oracleAddr two_v2 \<and> registerFlight_v2 2 ''FL123'' 1000 two_v2 = Inl Unauthorized) \<and>
   (txSender (mkTx 2 0 0 (RegisterFlight ''FL123'' 1000)) = oracleAddr two_v2 \<and>
    length (policies (subscriptions
      (commit two_v2 (dispatch_v2 (mkTx 2 0 0 (RegisterFlight ''FL123'' 1000)) 1000 two_v2)) 2)) = 0) \<and>
   (1 = oracleAddr oracle_subscribed_v1 \<and>
    isActive (subscriptions oracle_subscribed_v1 1) \<and>
    \<not> overflows (startTime (subscriptions oracle_subscribed_v1 1)) SUBSCRIPTION_DURATION \<and>
    1000 < startTime (subscriptions oracle_subscribed_v1 1) + SUBSCRIPTION_DURATION \<and>
    \<not> flightRegistered (policies (subscriptions oracle_subscribed_v1 1)) ''FL123'' \<and>
    policies (subscriptions (commit oracle_subscribed_v1
      (registerFlight_v1 1 ''FL123'' 1000 1000 oracle_subscribed_v1)) 1) = [newPolicy ''FL123'' 1000])"
proof -
  have o2: "2 = oracleAddr two_v2" "policies (subscriptions two_v2 2) = []"
    by (simp_all add: two_v2_def two_txs_def run_defs op_defs const_defs)
  have o1: "1 = oracleAddr oracle_subscribed_v1"
    "isActive (subscriptions oracle_subscribed_v1 1)"
    "startTime (subscriptions oracle_subscribed_v1 1) = 1000"
    "policies (subscriptions oracle_subscribed_v1 1) = []"
    by (simp_all add: oracle_subscribed_v1_def run_defs op_defs const_defs)
  have g: "\<not> overflows 1000 SUBSCRIPTION_DURATION" "1000 < 1000 + SUBSCRIPTION_DURATION"
    by (simp_all add: overflows_def const_defs)
  from o2 registerFlight_by_oracle
    [of 2 two_v2 "''FL123''" 1000 "mkTx 2 0 0 (RegisterFlight ''FL123'' 1000)" 1000 2]
  have p2: "registerFlight_v2 2 ''FL123'' 1000 two_v2 = Inl Unauthorized \<and>
    length (policies (subscriptions
      (commit two_v2 (dispatch_v2 (mkTx 2 0 0 (RegisterFlight ''FL123'' 1000)) 1000 two_v2)) 2)) = 0"
    by (simp add: mkTx_def)
  from o1 g registerFlight_by_oracle
    [of 1 oracle_subscribed_v1 "''FL123''" 1000 "mkTx 2 0 0 (RegisterFlight ''FL123'' 1000)" 1000 2]
  have p1: "policies (subscriptions (commit oracle_subscribed_v1
      (registerFlight_v1 1 ''FL123'' 1000 1000 oracle_subscribed_v1)) 1) = [newPolicy ''FL123'' 1000]"
    by (simp add: commit_def)
  from o1 o2 g p1 p2 show ?thesis
    by (simp add: mkTx_def)
qed

text \<open>
  The claim as worded fails on \<open>src/contracts/FlightInsurance.sol\<close>: account 1, the oracle
  since the constructor, registers a flight and the policy is appended.
\<close>

theorem oracle_registers_v1:
  "oracleAddr oracle_subscribed_v1 = 1 \<and>
   \<not> isl (registerFlight_v1 1 ''FL123'' 1000 1000 oracle_subscribed_v1) \<and>
   policies (subscriptions (commit oracle_subscribed_v1
     (registerFlight_v1 1 ''FL123'' 1000 1000 oracle_subscribed_v1)) 1) = [newPolicy ''FL123'' 1000]"
  by (simp add: oracle_subscribed_v1_def run_defs op_defs const_defs)

text \<open>
  Claim C4, as the code has it. When a policy with the flight id is already among the caller's
  own policies, \<open>registerFlight\<close> fails in both versions, always. The error is
  \<open>DuplicateFlight\<close> when the caller passes the checks that come before the scan of the
  policies: an active, unexpired subscription in \<open>src/contracts/FlightInsurance.sol\<close>, not
  being the oracle in \<open>src/unnamed/part_002\<close>; otherwise it is the error of the first check
  that fails. When the id is not among the caller's own policies and the caller passes those
  checks, the call succeeds whatever the other subscribers have registered, and it appends
  the policy to the caller's sequence and changes no other subscription.
\<close>

theorem registerFlight_duplicate:
  "(fid \<in> flightID ` set (policies (subscriptions s sender)) \<longrightarrow>
      (\<exists>e. registerFlight_v1 sender fid ts now s = Inl e) \<and>
      (\<exists>e. registerFlight_v2 sender fid ts s = Inl e) \<and>
      (isActive (subscriptions s sender) \<and>
       \<not> overflows (startTime (subscriptions s sender)) SUBSCRIPTION_DURATION \<and>
       now < startTime (subscriptions s sender) + SUBSCRIPTION_DURATION \<longrightarrow>
         registerFlight_v1 sender fid ts now s = Inl DuplicateFlight) \<and>
      (sender \<noteq> oracleAddr s \<longrightarrow> registerFlight_v2 sender fid ts s = Inl DuplicateFlight)) \<and>
   (fid \<notin> flightID ` set (policies (subscriptions s sender)) \<longrightarrow>
      (isActive (subscriptions s sender) \<and>
       \<not> overflows (startTime (subscriptions s sender)) SUBSCRIPTION_DURATION \<and>
       now < startTime (subscriptions s sender) + SUBSCRIPTION_DURATION \<longrightarrow>
         registerFlight_v1 sender fid ts now s =
           Inr (s\<lparr>subscriptions := (subscriptions s)
                    (sender := (subscriptions s sender)
                       \<lparr>policies := policies (subscriptions s sender) @ [newPolicy fid ts]\<rparr>)\<rparr>)) \<and>
      (sender \<noteq> oracleAddr s \<longrightarrow>
         registerFlight_v2 sender fid ts s =
           Inr (s\<lparr>subscriptions := (subscriptions s)
                    (sender := (subscriptions s sender)
                       \<lparr>policies := policies (subscriptions s sender) @ [newPolicy fid ts]\<rparr>),
                  allUsersWithFlights := pushIfAbsent (allUsersWithFlights s) sender\<rparr>)))"
  by (simp add: registerFlight_v1_def registerFlight_v2_def Let_def flightRegistered_iff)

theorem registerFlight_duplicate_witness:
  "(''FL123'' \<in> flightID ` set (policies (subscriptions two_v1 3)) \<and>
    ''FL123'' \<in> flightID ` set (policies (subscriptions two_v2 3)) \<and>
    registerFlight_v1 3 ''FL123'' 5000 1000 two_v1 = Inl DuplicateFlight \<and>
    registerFlight_v2 3 ''FL123'' 5000 two_v2 = Inl DuplicateFlight) \<and>
   (''FL123'' \<notin> flightID ` set (policies (subscriptions two_v1 4)) \<and>
    ''FL123'' \<notin> flightID ` set (policies (subscriptions two_v2 4)) \<and>
    policies (subscriptions (commit two_v1 (registerFlight_v1 4 ''FL123'' 5000 1000 two_v1)) 4) =
      [newPolicy ''FL123'' 5000] \<and>
    policies (subscriptions (commit two_v1 (registerFlight_v1 4 ''FL123'' 5000 1000 two_v1)) 3) =
      [newPolicy ''FL123'' 1000] \<and>
    policies (subscriptions (commit two_v2 (registerFlight_v2 4 ''FL123'' 5000 two_v2)) 4) =
      [newPolicy ''FL123'' 5000] \<and>
    policies (subscriptions (commit two_v2 (registerFlight_v2 4 ''FL123'' 5000 two_v2)) 3) =
      [newPolicy ''FL123'' 1000])"
proof -
  have s1: "policies (subscriptions two_v1 3) = [newPolicy ''FL123'' 1000]"
    "policies (subscriptions two_v1 4) = []"
    "isActive (subscriptions two_v1 3)" "isActive (subscriptions two_v1 4)"
    "startTime (subscriptions two_v1 3) = 1000" "startTime (subscriptions two_v1 4) = 1000"
    by (simp_all add: two_v1_def two_txs_def run_defs op_defs const_defs)
  have s2: "policies (subscriptions two_v2 3) = [newPolicy ''FL123'' 1000]"
    "policies (subscriptions two_v2 4) = []" "oracleAddr two_v2 = 2"
    by (simp_all add: two_v2_def two_txs_def run_defs op_defs const_defs)
  have g: "\<not> overflows 1000 SUBSCRIPTION_DURATION" "1000 < 1000 + SUBSCRIPTION_DURATION"
    by (simp_all add: overflows_def const_defs)
  from s1 g registerFlight_duplicate [of "''FL123''" two_v1 3 5000 1000]
  have d1: "registerFlight_v1 3 ''FL123'' 5000 1000 two_v1 = Inl DuplicateFlight"
    by (simp add: newPolicy_def)
  from s2 registerFlight_duplicate [of "''FL123''" two_v2 3 5000 1000]
  have d2: "registerFlight_v2 3 ''FL123'' 5000 two_v2 = Inl DuplicateFlight"
    by (simp add: newPolicy_def)
  from s1 g registerFlight_duplicate [of "''FL123''" two_v1 4 5000 1000]
  have r1: "policies (subscriptions (commit two_v1 (registerFlight_v1 4 ''FL123'' 5000 1000 two_v1)) 4) =
      [newPolicy ''FL123'' 5000] \<and>
    policies (subscriptions (commit two_v1 (registerFlight_v1 4 ''FL123'' 5000 1000 two_v1)) 3) =
      [newPolicy ''FL123'' 1000]"
    by (simp add: commit_def)
  from s2 registerFlight_duplicate [of "''FL123''" two_v2 4 5000 1000]
  have r2: "policies (subscriptions (commit two_v2 (registerFlight_v2 4 ''FL123'' 5000 two_v2)) 4) =
      [newPolicy ''FL123'' 5000] \<and>
    policies (subscriptions (commit two_v2 (registerFlight_v2 4 ''FL123'' 5000 two_v2)) 3) =
      [newPolicy ''FL123'' 1000]"
    by (simp add: commit_def)
  from s1 s2 d1 d2 r1 r2 show ?thesis
    by (simp add: newPolicy_def)
qed

text \<open>
  The claim as worded names the wrong error where an earlier check fails first. In
  \<open>src/contracts/FlightInsurance.sol\<close>, thirty days after the set-up, account 3 registers
  FL123 a second time: the policy is there, and the call fails with \<open>SubscriptionExpired\<close>.
\<close>

theorem registerFlight_duplicate_other_error:
  "''FL123'' \<in> flightID ` set (policies (subscriptions (snd (run_v1 setup_txs (deploy_v1 1000 1))) 3)) \<and>
   registerFlight_v1 3 ''FL123'' 1000 2593000 (snd (run_v1 setup_txs (deploy_v1 1000 1))) =
     Inl SubscriptionExpired \<and>
   registerFlight_v1 3 ''FL123'' 1000 2593000 (snd (run_v1 setup_txs (deploy_v1 1000 1))) \<noteq>
     Inl DuplicateFlight"
  by (simp add: run_defs op_defs const_defs)

section \<open>Expiry\<close>

subsection \<open>The stored flag outlives the subscription\<close>

lemma exec_v1_keeps_flag:
  assumes "isActive (subscriptions (snd w) who)"
    and "\<forall>fid. txCall t \<noteq> UpdateFlightStatus fid True"
  shows "isActive (subscriptions (snd (exec_v1 t w)) who)"
proof (cases "txCall t")
  case (UpdateFlightStatus fid delayed)
  with assms(2) have "\<not> delayed" by auto
  with UpdateFlightStatus assms(1) show ?thesis
    by (simp add: exec_v1_def dispatch_v1_def updateFlightStatus_v1_def commit_def Let_def)
qed (use assms(1) in \<open>auto simp: exec_v1_def dispatch_v1_def commit_def setOracle_v1_def
       depositFunds_v1_def subscribe_v1_def registerFlight_v1_def Let_def\<close>)

lemma exec_v2_keeps_flag:
  assumes "isActive (subscriptions (snd w) who)"
    and "\<forall>fid. txCall t \<noteq> UpdateFlightStatus fid True"
  shows "isActive (subscriptions (snd (exec_v2 t w)) who)"
proof (cases "txCall t")
  case (UpdateFlightStatus fid delayed)
  with assms(2) have "\<not> delayed" by auto
  with UpdateFlightStatus assms(1) show ?thesis
    by (simp add: exec_v2_def dispatch_v2_def updateFlightStatus_v2_def commit_def Let_def)
qed (use assms(1) in \<open>auto simp: exec_v2_def dispatch_v2_def commit_def setOracle_v2_def
       depositFunds_v2_def subscribe_v2_def registerFlight_v2_def Let_def\<close>)

lemma run_v1_keeps_flag:
  "isActive (subscriptions (snd w) who) \<Longrightarrow>
   \<forall>t \<in> set txs. \<forall>fid. txCall t \<noteq> UpdateFlightStatus fid True \<Longrightarrow>
   isActive (subscriptions (snd (run_v1 txs w)) who)"
proof (induction txs arbitrary: w)
  case Nil
  then show ?case by (simp add: run_v1_def)
next
  case (Cons t txs)
  from Cons.prems have "isActive (subscriptions (snd (exec_v1 t w)) who)"
    by (simp add: exec_v1_keeps_flag)
  with Cons.prems Cons.IH [of "exec_v1 t w"] show ?case
    by (simp add: run_v1_def)
qed

lemma run_v2_keeps_flag:
  "isActive (subscriptions (snd w) who) \<Longrightarrow>
   \<forall>t \<in> set txs. \<forall>fid. txCall t \<noteq> UpdateFlightStatus fid True \<Longrightarrow>
   isActive (subscriptions (snd (run_v2 txs w)) who)"
proof (induction txs arbitrary: w)
  case Nil
  then show ?case by (simp add: run_v2_def)
next
  case (Cons t txs)
  from Cons.prems have "isActive (subscriptions (snd (exec_v2 t w)) who)"
    by (simp add: exec_v2_keeps_flag)
  with Cons.prems Cons.IH [of "exec_v2 t w"] show ?case
    by (simp add: run_v2_def)
qed

lemma late_v1:
  "fst (run_v1 [late_deposit] setup_v1) = 2593000"
  "isActive (subscriptions (snd (run_v1 [late_deposit] setup_v1)) 3)"
  "startTime (subscriptions (snd (run_v1 [late_deposit] setup_v1)) 3) = 1000"
  by (simp_all add: setup_v1_def late_deposit_def run_defs op_defs const_defs)

lemma late_v2:
  "fst (run_v2 [late_deposit] setup_v2) = 2593000"
  "isActive (subscriptions (snd (run_v2 [late_deposit] setup_v2)) 3)"
  "startTime (subscriptions (snd (run_v2 [late_deposit] setup_v2)) 3) = 1000"
  by (simp_all add: setup_v2_def late_deposit_def run_defs op_defs const_defs)

text \<open>
  Claim C10. A deployment reaches a world in which \<open>isSubscribed(who)\<close> returns false, the
  thirty days being over, while \<open>subscribe\<close> with the exact premium still fails with
  \<open>AlreadySubscribed\<close>. For \<open>subscribe\<close> reads the stored flag only, and a stored flag that is
  set stays set through every sequence of transactions without a report \<open>delayed = true\<close>:
  until such a report the subscriber cannot subscribe again. Both versions.
\<close>

theorem expired_cannot_resubscribe:
  "(\<exists>txs t0 deployer who.
      isSubscribed who (fst (run_v1 txs (deploy_v1 t0 deployer)))
        (snd (run_v1 txs (deploy_v1 t0 deployer))) = Inr False \<and>
      subscribe_v1 who PREMIUM (fst (run_v1 txs (deploy_v1 t0 deployer)))
        (snd (run_v1 txs (deploy_v1 t0 deployer))) = Inl AlreadySubscribed) \<and>
   (\<exists>txs t0 deployer who.
      isSubscribed who (fst (run_v2 txs (deploy_v2 t0 deployer)))
        (snd (run_v2 txs (deploy_v2 t0 deployer))) = Inr False \<and>
      subscribe_v2 who PREMIUM (fst (run_v2 txs (deploy_v2 t0 deployer)))
        (snd (run_v2 txs (deploy_v2 t0 deployer))) = Inl AlreadySubscribed) \<and>
   (isActive (subscriptions (snd w) who) \<and>
    (\<forall>t \<in> set txs. \<forall>fid. txCall t \<noteq> UpdateFlightStatus fid True) \<longrightarrow>
      isActive (subscriptions (snd (run_v1 txs w)) who) \<and>
      subscribe_v1 who PREMIUM now (snd (run_v1 txs w)) = Inl AlreadySubscribed \<and>
      isActive (subscriptions (snd (run_v2 txs w)) who) \<and>
      subscribe_v2 who PREMIUM now (snd (run_v2 txs w)) = Inl AlreadySubscribed)"
proof (intro conjI)
  let ?w1 = "run_v1 (setup_txs @ [late_deposit]) (deploy_v1 1000 1)"
  have w1: "?w1 = run_v1 [late_deposit] setup_v1"
    by (simp add: run_v1_def setup_v1_def)
  have "isSubscribed 3 (fst ?w1) (snd ?w1) = Inr False \<and>
        subscribe_v1 3 PREMIUM (fst ?w1) (snd ?w1) = Inl AlreadySubscribed"
    unfolding w1 using late_v1
    by (simp add: isSubscribed_def subscribe_v1_def overflows_def const_defs)
  then show "\<exists>txs t0 deployer who.
      isSubscribed who (fst (run_v1 txs (deploy_v1 t0 deployer)))
        (snd (run_v1 txs (deploy_v1 t0 deployer))) = Inr False \<and>
      subscribe_v1 who PREMIUM (fst (run_v1 txs (deploy_v1 t0 deployer)))
        (snd (run_v1 txs (deploy_v1 t0 deployer))) = Inl AlreadySubscribed"
    by blast
next
  let ?w2 = "run_v2 (setup_txs @ [late_deposit]) (deploy_v2 1000 1)"
  have w2: "?w2 = run_v2 [late_deposit] setup_v2"
    by (simp add: run_v2_def setup_v2_def)
  have "isSubscribed 3 (fst ?w2) (snd ?w2) = Inr False \<and>
        subscribe_v2 3 PREMIUM (fst ?w2) (snd ?w2) = Inl AlreadySubscribed"
    unfolding w2 using late_v2
    by (simp add: isSubscribed_def subscribe_v2_def overflows_def const_defs)
  then show "\<exists>txs t0 deployer who.
      isSubscribed who (fst (run_v2 txs (deploy_v2 t0 deployer)))
        (snd (run_v2 txs (deploy_v2 t0 deployer))) = Inr False \<and>
      subscribe_v2 who PREMIUM (fst (run_v2 txs (deploy_v2 t0 deployer)))
        (snd (run_v2 txs (deploy_v2 t0 deployer))) = Inl AlreadySubscribed"
    by blast
next
  show "isActive (subscriptions (snd w) who) \<and>
    (\<forall>t \<in> set txs. \<forall>fid. txCall t \<noteq> UpdateFlightStatus fid True) \<longrightarrow>
      isActive (subscriptions (snd (run_v1 txs w)) who) \<and>
      subscribe_v1 who PREMIUM now (snd (run_v1 txs w)) = Inl AlreadySubscribed \<and>
      isActive (subscriptions (snd (run_v2 txs w)) who) \<and>
      subscribe_v2 who PREMIUM now (snd (run_v2 txs w)) = Inl AlreadySubscribed"
    by (simp add: run_v1_keeps_flag run_v2_keeps_flag subscribe_v1_def subscribe_v2_def)
qed

theorem expired_cannot_resubscribe_witness:
  "isActive (subscriptions (snd setup_v1) 3) \<and>
   txCall late_deposit = DepositFunds \<and>
   fst (run_v1 [late_deposit] setup_v1) = 2593000 \<and>
   isSubscribed 3 2593000 (snd (run_v1 [late_deposit] setup_v1)) = Inr False \<and>
   subscribe_v1 3 PREMIUM 2593000 (snd (run_v1 [late_deposit] setup_v1)) = Inl AlreadySubscribed"
proof -
  have a: "isActive (subscriptions (snd setup_v1) 3)"
    by (simp add: setup_v1_def run_defs op_defs const_defs)
  have d: "txCall late_deposit = DepositFunds"
    by (simp add: late_deposit_def mkTx_def)
  from a d expired_cannot_resubscribe [of setup_v1 3 "[late_deposit]" 2593000]
  have "subscribe_v1 3 PREMIUM 2593000 (snd (run_v1 [late_deposit] setup_v1)) = Inl AlreadySubscribed"
    by simp
  with a d late_v1 show ?thesis
    by (simp add: isSubscribed_def overflows_def const_defs)
qed

subsection \<open>When the flag is cleared, and when it is set again\<close>

lemma set_pushIfAbsent: "set (pushIfAbsent xs a) = insert a (set xs)"
  by (auto simp: pushIfAbsent_def userExists_iff)

lemma dispatch_v1_activeListed:
  "dispatch_v1 t now s = Inr s' \<Longrightarrow> activeListed_v1 s \<Longrightarrow> activeListed_v1 s'"
proof (cases "txCall t")
  case (UpdateFlightStatus fid delayed)
  assume d: "dispatch_v1 t now s = Inr s'" and inv: "activeListed_v1 s"
  show ?thesis
  proof (cases delayed)
    case True
    let ?s1 = "s\<lparr>flightDelays := (flightDelays s)(fid := True)\<rparr>"
    from d UpdateFlightStatus True
    have sc: "scanSubscribers_v1 (txRefuses t) fid now (allSubscribers s) ?s1 = Inr s'"
      by (auto simp: dispatch_v1_def updateFlightStatus_v1_def Let_def split: if_splits)
    have "isActive (subscriptions s' u) \<Longrightarrow> u \<in> set (allSubscribers s')" for u
      using scanSubscribers_v1_sub [OF sc, of u] scanSubscribers_v1_frame [OF sc] inv
      by (auto simp: activeListed_v1_def)
    then show ?thesis by (simp add: activeListed_v1_def)
  next
    case False
    with d UpdateFlightStatus inv show ?thesis
      by (auto simp: dispatch_v1_def updateFlightStatus_v1_def Let_def activeListed_v1_def
          split: if_splits)
  qed
qed (auto simp: dispatch_v1_def setOracle_v1_def depositFunds_v1_def subscribe_v1_def
       registerFlight_v1_def Let_def activeListed_v1_def split: if_splits)

lemma dispatch_v2_activeListed:
  "dispatch_v2 t now s = Inr s' \<Longrightarrow> activeListed_v2 s \<Longrightarrow> activeListed_v2 s'"
proof (cases "txCall t")
  case (UpdateFlightStatus fid delayed)
  assume d: "dispatch_v2 t now s = Inr s'" and inv: "activeListed_v2 s"
  show ?thesis
  proof (cases delayed)
    case True
    let ?s1 = "s\<lparr>flightDelays := (flightDelays s)(fid := True)\<rparr>"
    from d UpdateFlightStatus True
    have sc: "scanUsers_v2 (txRefuses t) fid now (allUsersWithFlights s) ?s1 = Inr s'"
      by (auto simp: dispatch_v2_def updateFlightStatus_v2_def Let_def split: if_splits)
    have "isActive (subscriptions s' u) \<Longrightarrow> u \<in> set (allUsersWithFlights s')" for u
      using scanUsers_v2_sub [OF sc, of u] scanUsers_v2_frame [OF sc] inv
      by (auto simp: activeListed_v2_def)
    then show ?thesis by (simp add: activeListed_v2_def)
  next
    case False
    with d UpdateFlightStatus inv show ?thesis
      by (auto simp: dispatch_v2_def updateFlightStatus_v2_def Let_def activeListed_v2_def
          split: if_splits)
  qed
qed (auto simp: dispatch_v2_def setOracle_v2_def depositFunds_v2_def subscribe_v2_def
       registerFlight_v2_def Let_def activeListed_v2_def set_pushIfAbsent split: if_splits)

lemma run_v1_activeListed:
  "activeListed_v1 (snd w) \<Longrightarrow> activeListed_v1 (snd (run_v1 txs w))"
proof (induction txs arbitrary: w)
  case Nil
  then show ?case by (simp add: run_v1_def)
next
  case (Cons t txs)
  have "activeListed_v1 (snd (exec_v1 t w))"
    using Cons.prems
    by (cases "dispatch_v1 t (fst w + txWait t) (snd w)")
       (simp_all add: exec_v1_def commit_def Let_def dispatch_v1_activeListed)
  from Cons.IH [OF this] show ?case by (simp add: run_v1_def)
qed

lemma run_v2_activeListed:
  "activeListed_v2 (snd w) \<Longrightarrow> activeListed_v2 (snd (run_v2 txs w))"
proof (induction txs arbitrary: w)
  case Nil
  then show ?case by (simp add: run_v2_def)
next
  case (Cons t txs)
  have "activeListed_v2 (snd (exec_v2 t w))"
    using Cons.prems
    by (cases "dispatch_v2 t (fst w + txWait t) (snd w)")
       (simp_all add: exec_v2_def commit_def Let_def dispatch_v2_activeListed)
  from Cons.IH [OF this] show ?case by (simp add: run_v2_def)
qed

lemma deploy_activeListed:
  "activeListed_v1 (snd (deploy_v1 t0 d))" "activeListed_v2 (snd (deploy_v2 t0 d))"
  by (simp_all add: activeListed_v1_def activeListed_v2_def deploy_v1_def deploy_v2_def
      constructor_v1_def constructor_v2_def emptySubscription_def)

lemma report_v1_clears:
  assumes "updateFlightStatus_v1 refuses sender fid True now s = Inr s'" and "activeListed_v1 s"
    and "startTime (subscriptions s' u) + SUBSCRIPTION_DURATION \<le> now"
  shows "\<not> isActive (subscriptions s' u)"
proof -
  let ?s1 = "s\<lparr>flightDelays := (flightDelays s)(fid := True)\<rparr>"
  from assms(1) have sc: "scanSubscribers_v1 refuses fid now (allSubscribers s) ?s1 = Inr s'"
    by (auto simp: updateFlightStatus_v1_def Let_def split: if_splits)
  from scanSubscribers_v1_sub [OF sc, of u] assms(2,3) show ?thesis
    by (cases "u \<in> set (allSubscribers s)") (auto simp: activeListed_v1_def)
qed

lemma report_v2_clears:
  assumes "updateFlightStatus_v2 refuses sender fid True now s = Inr s'" and "activeListed_v2 s"
    and "startTime (subscriptions s' u) + SUBSCRIPTION_DURATION \<le> now"
  shows "\<not> isActive (subscriptions s' u)"
proof -
  let ?s1 = "s\<lparr>flightDelays := (flightDelays s)(fid := True)\<rparr>"
  from assms(1) have sc: "scanUsers_v2 refuses fid now (allUsersWithFlights s) ?s1 = Inr s'"
    by (auto simp: updateFlightStatus_v2_def Let_def split: if_splits)
  from scanUsers_v2_sub [OF sc, of u] assms(2,3) show ?thesis
    by (cases "u \<in> set (allUsersWithFlights s)") (auto simp: activeListed_v2_def)
qed

lemma exec_v1_sets_flag:
  assumes "\<not> isActive (subscriptions (snd w) u)"
    and "isActive (subscriptions (snd (exec_v1 t w)) u)"
  shows "txCall t = Subscribe \<and> txSender t = u \<and>
         startTime (subscriptions (snd (exec_v1 t w)) u) = fst w + txWait t"
proof (cases "txCall t")
  case (UpdateFlightStatus fid delayed)
  show ?thesis
  proof (cases "dispatch_v1 t (fst w + txWait t) (snd w)")
    case (Inl e)
    with assms show ?thesis by (simp add: exec_v1_def commit_def Let_def)
  next
    case (Inr s')
    show ?thesis
    proof (cases delayed)
      case True
      let ?s1 = "(snd w)\<lparr>flightDelays := (flightDelays (snd w))(fid := True)\<rparr>"
      from Inr UpdateFlightStatus True
      have sc: "scanSubscribers_v1 (txRefuses t) fid (fst w + txWait t) (allSubscribers (snd w)) ?s1 = Inr s'"
        by (auto simp: dispatch_v1_def updateFlightStatus_v1_def Let_def split: if_splits)
      from scanSubscribers_v1_sub [OF sc, of u] assms(1)
      have "\<not> isActive (subscriptions s' u)"
        by (cases "u \<in> set (allSubscribers (snd w))") auto
      with assms(2) Inr show ?thesis by (simp add: exec_v1_def commit_def Let_def)
    next
      case False
      with Inr UpdateFlightStatus assms show ?thesis
        by (auto simp: exec_v1_def commit_def dispatch_v1_def updateFlightStatus_v1_def Let_def
            split: if_splits)
    qed
  qed
qed (use assms in \<open>auto simp: exec_v1_def dispatch_v1_def commit_def setOracle_v1_def
       depositFunds_v1_def subscribe_v1_def registerFlight_v1_def Let_def split: if_splits\<close>)

lemma exec_v2_sets_flag:
  assumes "\<not> isActive (subscriptions (snd w) u)"
    and "isActive (subscriptions (snd (exec_v2 t w)) u)"
  shows "txCall t = Subscribe \<and> txSender t = u \<and>
         startTime (subscriptions (snd (exec_v2 t w)) u) = fst w + txWait t"
proof (cases "txCall t")
  case (UpdateFlightStatus fid delayed)
  show ?thesis
  proof (cases "dispatch_v2 t (fst w + txWait t) (snd w)")
    case (Inl e)
    with assms show ?thesis by (simp add: exec_v2_def commit_def Let_def)
  next
    case (Inr s')
    show ?thesis
    proof (cases delayed)
      case True
      let ?s1 = "(snd w)\<lparr>flightDelays := (flightDelays (snd w))(fid := True)\<rparr>"
      from Inr UpdateFlightStatus True
      have sc: "scanUsers_v2 (txRefuses t) fid (fst w + txWait t) (allUsersWithFlights (snd w)) ?s1 = Inr s'"
        by (auto simp: dispatch_v2_def updateFlightStatus_v2_def Let_def split: if_splits)
      from scanUsers_v2_sub [OF sc, of u] assms(1)
      have "\<not> isActive (subscriptions s' u)"
        by (cases "u \<in> set (allUsersWithFlights (snd w))") auto
      with assms(2) Inr show ?thesis by (simp add: exec_v2_def commit_def Let_def)
    next
      case False
      with Inr UpdateFlightStatus assms show ?thesis
        by (auto simp: exec_v2_def commit_def dispatch_v2_def updateFlightStatus_v2_def Let_def
            split: if_splits)
    qed
  qed
qed (use assms in \<open>auto simp: exec_v2_def dispatch_v2_def commit_def setOracle_v2_def
       depositFunds_v2_def subscribe_v2_def registerFlight_v2_def Let_def split: if_splits\<close>)


text \<open>
  Claim C6, as the code has it. Expiry is lazy: the stored flag \<open>isActive\<close> is not tied to
  the clock, and stays set after the thirty days until a report \<open>delayed = true\<close> scans the
  subscriber. What holds, in both versions:
  \<^item> \<open>isSubscribed\<close>, the value callers observe, is true only when the flag is set and
    \<open>now < startTime + SUBSCRIPTION_DURATION\<close>;
  \<^item> after a successful report \<open>delayed = true\<close> at time \<open>now\<close>, in a ledger reached from a
    deployment, every subscription that is expired at \<open>now\<close> has its stored flag clear;
  \<^item> a clear flag is set again by no transaction but a successful \<open>subscribe\<close> of that
    subscriber, which starts a new period at the timestamp of its block.
\<close>

theorem active_flag_expiry:
  "(isSubscribed who now s = Inr True \<longrightarrow>
      isActive (subscriptions s who) \<and>
      now < startTime (subscriptions s who) + SUBSCRIPTION_DURATION) \<and>
   (updateFlightStatus_v1 refuses sender fid True now (snd (run_v1 txs (deploy_v1 t0 deployer))) = Inr s' \<and>
    startTime (subscriptions s' u) + SUBSCRIPTION_DURATION \<le> now \<longrightarrow>
      \<not> isActive (subscriptions s' u)) \<and>
   (updateFlightStatus_v2 refuses sender fid True now (snd (run_v2 txs (deploy_v2 t0 deployer))) = Inr s' \<and>
    startTime (subscriptions s' u) + SUBSCRIPTION_DURATION \<le> now \<longrightarrow>
      \<not> isActive (subscriptions s' u)) \<and>
   (\<not> isActive (subscriptions (snd w) u) \<and> isActive (subscriptions (snd (exec_v1 t w)) u) \<longrightarrow>
      txCall t = Subscribe \<and> txSender t = u \<and>
      startTime (subscriptions (snd (exec_v1 t w)) u) = fst w + txWait t) \<and>
   (\<not> isActive (subscriptions (snd w) u) \<and> isActive (subscriptions (snd (exec_v2 t w)) u) \<longrightarrow>
      txCall t = Subscribe \<and> txSender t = u \<and>
      startTime (subscriptions (snd (exec_v2 t w)) u) = fst w + txWait t)"
proof (intro conjI impI)
  assume "isSubscribed who now s = Inr True"
  then show "isActive (subscriptions s who)"
    and "now < startTime (subscriptions s who) + SUBSCRIPTION_DURATION"
    by (auto simp: isSubscribed_def Let_def split: if_splits)
next
  assume "updateFlightStatus_v1 refuses sender fid True now (snd (run_v1 txs (deploy_v1 t0 deployer))) = Inr s' \<and>
    startTime (subscriptions s' u) + SUBSCRIPTION_DURATION \<le> now"
  then show "\<not> isActive (subscriptions s' u)"
    using report_v1_clears run_v1_activeListed [OF deploy_activeListed(1)] by blast
next
  assume "updateFlightStatus_v2 refuses sender fid True now (snd (run_v2 txs (deploy_v2 t0 deployer))) = Inr s' \<and>
    startTime (subscriptions s' u) + SUBSCRIPTION_DURATION \<le> now"
  then show "\<not> isActive (subscriptions s' u)"
    using report_v2_clears run_v2_activeListed [OF deploy_activeListed(2)] by blast
next
  assume a: "\<not> isActive (subscriptions (snd w) u) \<and> isActive (subscriptions (snd (exec_v1 t w)) u)"
  then show "txCall t = Subscribe" and "txSender t = u"
    and "startTime (subscriptions (snd (exec_v1 t w)) u) = fst w + txWait t"
    using exec_v1_sets_flag [of w u t] by simp_all
next
  assume a: "\<not> isActive (subscriptions (snd w) u) \<and> isActive (subscriptions (snd (exec_v2 t w)) u)"
  then show "txCall t = Subscribe" and "txSender t = u"
    and "startTime (subscriptions (snd (exec_v2 t w)) u) = fst w + txWait t"
    using exec_v2_sets_flag [of w u t] by simp_all
qed

lemma lapsed_report_v1:
  "updateFlightStatus_v1 noRefusal 2 ''FL123'' True 2593000 (snd (run_v1 setup_txs (deploy_v1 1000 1))) = Inr lapsed_v1"
  by (simp add: run_defs op_defs const_defs)

lemma lapsed_report_v2:
  "updateFlightStatus_v2 noRefusal 2 ''FL123'' True 2593000 (snd (run_v2 setup_txs (deploy_v2 1000 1))) = Inr lapsed_v2"
  by (simp add: run_defs op_defs const_defs)

lemma lapsed_facts:
  "startTime (subscriptions lapsed_v1 3) = 1000" "startTime (subscriptions lapsed_v2 3) = 1000"
  "\<not> isActive (subscriptions lapsed_v1 3)" "\<not> isActive (subscriptions lapsed_v2 3)"
  by (simp_all add: run_defs op_defs const_defs)

theorem active_flag_expiry_witness:
  "isSubscribed 3 1000 (snd setup_v1) = Inr True \<and>
   updateFlightStatus_v1 noRefusal 2 ''FL123'' True 2593000 (snd (run_v1 setup_txs (deploy_v1 1000 1))) = Inr lapsed_v1 \<and>
   startTime (subscriptions lapsed_v1 3) + SUBSCRIPTION_DURATION \<le> 2593000 \<and>
   \<not> isActive (subscriptions lapsed_v1 3) \<and>
   updateFlightStatus_v2 noRefusal 2 ''FL123'' True 2593000 (snd (run_v2 setup_txs (deploy_v2 1000 1))) = Inr lapsed_v2 \<and>
   startTime (subscriptions lapsed_v2 3) + SUBSCRIPTION_DURATION \<le> 2593000 \<and>
   \<not> isActive (subscriptions lapsed_v2 3) \<and>
   isActive (subscriptions (snd (exec_v1 (mkTx 3 PREMIUM 10 Subscribe) (2593000, lapsed_v1))) 3) \<and>
   startTime (subscriptions (snd (exec_v1 (mkTx 3 PREMIUM 10 Subscribe) (2593000, lapsed_v1))) 3) = 2593010 \<and>
   isActive (subscriptions (snd (exec_v2 (mkTx 3 PREMIUM 10 Subscribe) (2593000, lapsed_v2))) 3) \<and>
   startTime (subscriptions (snd (exec_v2 (mkTx 3 PREMIUM 10 Subscribe) (2593000, lapsed_v2))) 3) = 2593010"
proof -
  have sub: "isSubscribed 3 1000 (snd setup_v1) = Inr True"
    by (simp add: setup_v1_def run_defs op_defs const_defs)
  have le: "(1000::nat) + SUBSCRIPTION_DURATION \<le> 2593000"
    by (simp add: const_defs)
  have r1: "isActive (subscriptions (snd (exec_v1 (mkTx 3 PREMIUM 10 Subscribe) (2593000, lapsed_v1))) 3)"
    using lapsed_facts by (simp add: exec_v1_def dispatch_v1_def mkTx_def subscribe_v1_def commit_def)
  have r2: "isActive (subscriptions (snd (exec_v2 (mkTx 3 PREMIUM 10 Subscribe) (2593000, lapsed_v2))) 3)"
    using lapsed_facts by (simp add: exec_v2_def dispatch_v2_def mkTx_def subscribe_v2_def commit_def)
  from active_flag_expiry
    [where refuses = noRefusal and now = 2593000 and sender = 2 and fid = "''FL123''"
       and txs = setup_txs and ?t0.0 = 1000
       and deployer = 1 and s' = lapsed_v1 and u = 3 and w = "(2593000, lapsed_v1)"
       and t = "mkTx 3 PREMIUM 10 Subscribe"]
    le r1 lapsed_report_v1 lapsed_facts
  have v1: "\<not> isActive (subscriptions lapsed_v1 3) \<and>
    startTime (subscriptions (snd (exec_v1 (mkTx 3 PREMIUM 10 Subscribe) (2593000, lapsed_v1))) 3) = 2593010"
    by (simp add: mkTx_def)
  from active_flag_expiry
    [where refuses = noRefusal and now = 2593000 and sender = 2 and fid = "''FL123''"
       and txs = setup_txs and ?t0.0 = 1000
       and deployer = 1 and s' = lapsed_v2 and u = 3 and w = "(2593000, lapsed_v2)"
       and t = "mkTx 3 PREMIUM 10 Subscribe"]
    le r2 lapsed_report_v2 lapsed_facts
  have v2: "\<not> isActive (subscriptions lapsed_v2 3) \<and>
    startTime (subscriptions (snd (exec_v2 (mkTx 3 PREMIUM 10 Subscribe) (2593000, lapsed_v2))) 3) = 2593010"
    by (simp add: mkTx_def)
  from active_flag_expiry [where who = 3 and now = 1000 and s = "snd setup_v1"] sub
  have v0: "isActive (subscriptions (snd setup_v1) 3)"
    by simp
  from v0 sub le r1 r2 v1 v2 lapsed_report_v1 lapsed_report_v2 lapsed_facts show ?thesis
    by simp
qed

text \<open>
  The claim as worded fails in a reachable world: thirty days after account 3 subscribed, and
  with no report in between, the stored flag is still set although the period is over.
\<close>

theorem stored_flag_outlives_expiry:
  "isActive (subscriptions (snd (run_v1 (setup_txs @ [late_deposit]) (deploy_v1 1000 1))) 3) \<and>
   \<not> fst (run_v1 (setup_txs @ [late_deposit]) (deploy_v1 1000 1)) <
       startTime (subscriptions (snd (run_v1 (setup_txs @ [late_deposit]) (deploy_v1 1000 1))) 3) +
         SUBSCRIPTION_DURATION"
  by (simp add: late_deposit_def run_defs op_defs const_defs)

section \<open>Lapsed subscribers\<close>

















section \<open>An underfunded pool\<close>
























end
